theory Spec2Isabelle
  imports Main
begin

section \<open>The agent execution loop of the QA tester\<close>

text \<open>
  The repository holds several generations of the same agent loop:
  \<^item> \<^verbatim>\<open>src/server/api/routers/qa_analysis.ts\<close> (the tRPC router; variant \<open>Router\<close> below),
  \<^item> \<^verbatim>\<open>src/server/services/qualityAnalysis.ts\<close> (the exported service; variant \<open>Service\<close>),
  \<^item> the \<open>runQualityAnalysis\<close> that follows the app router in \<^verbatim>\<open>src/server/api/root.ts\<close>
    (no repetition guard, no navigation guard; suffix \<open>_plain\<close>),
  \<^item> the first \<open>runQualityAnalysis\<close> of \<^verbatim>\<open>unnamed/part_001\<close> (the oldest one; suffix \<open>_legacy\<close>),
  \<^item> \<open>executeWebTask\<close> of \<^verbatim>\<open>unnamed/part_000\<close> (the generic web task executor).

  The browser and the language model are external. Everything the code reads from them
  is an input of the model (an environment record per loop iteration), every exception
  they can raise is a value, and the calls the code makes on the browser are appended to
  a trace (\<open>ops\<close>), so that "the executor was not invoked" is a statement about that trace.
\<close>

subsection \<open>Strings\<close>

definition nl :: string where
  "nl = [CHR 0x0A]"

definition digit :: "nat \<Rightarrow> char" where
  "digit d = ''0123456789'' ! d"

text \<open>Template literals print a number in decimal.\<close>

function string_of_nat :: "nat \<Rightarrow> string" where
  "string_of_nat n =
     (if n < 10 then [digit n] else string_of_nat (n div 10) @ [digit (n mod 10)])"
  by pat_completeness auto
termination
  by (relation "measure id") auto

declare string_of_nat.simps [simp del]

definition startsWith :: "string \<Rightarrow> string \<Rightarrow> bool" where
  "startsWith s p = (take (length p) s = p)"

text \<open>\<^verbatim>\<open>s.includes(p)\<close>\<close>

fun str_includes :: "string \<Rightarrow> string \<Rightarrow> bool" where
  "str_includes [] p = (p = [])"
| "str_includes (c # cs) p = (startsWith (c # cs) p \<or> str_includes cs p)"

text \<open>\<^verbatim>\<open>xs.join(sep)\<close>\<close>

fun join :: "string \<Rightarrow> string list \<Rightarrow> string" where
  "join sep [] = []"
| "join sep [x] = x"
| "join sep (x # y # ys) = x @ sep @ join sep (y # ys)"

subsection \<open>Proposals\<close>

text \<open>
  A thrown \<^verbatim>\<open>Error\<close> with its message.
\<close>

datatype exn = Error (message: string)

text \<open>
  The object the language model's reply decodes to, seen through the fields the loop
  reads: \<^verbatim>\<open>thought\<close>, \<^verbatim>\<open>action\<close> and the entries of \<^verbatim>\<open>params\<close>. \<open>p_json\<close> is the text
  \<^verbatim>\<open>JSON.stringify\<close> gives for the object, \<open>p_params\<close> says whether it has a
  \<^verbatim>\<open>params\<close> object at all. A field that is absent is \<open>None\<close>. The model
  covers replies whose fields have the JSON types the system prompt asks for (strings,
  and a number for \<^verbatim>\<open>ms\<close>).
\<close>

record proposal =
  p_json :: string
  p_thought :: string
  p_action :: string
  p_params :: bool
  p_selector :: "string option"
  p_url :: "string option"
  p_text :: "string option"
  p_ms :: "nat option"
  p_direction :: "string option"
  p_value :: "string option"

text \<open>JavaScript truthiness of an optional string, and \<^verbatim>\<open>v || d\<close>.\<close>

definition truthy :: "string option \<Rightarrow> bool" where
  "truthy v = (case v of None \<Rightarrow> False | Some s \<Rightarrow> s \<noteq> [])"

definition orElse :: "string option \<Rightarrow> string \<Rightarrow> string" where
  "orElse v d = (case v of None \<Rightarrow> d | Some s \<Rightarrow> if s = [] then d else s)"

text \<open>
  \<^verbatim>\<open>JSON.parse\<close> (and \<^verbatim>\<open>parseJson\<close> of the parse-json package) is a parameter:
  \<open>None\<close> is a syntax error, \<open>Some None\<close> the value \<^verbatim>\<open>null\<close>, \<open>Some (Some p)\<close> an
  object. (JSON texts that denote a number, a string, a boolean or an array are not
  modelled.)
\<close>

type_synonym json_parser = "string \<Rightarrow> proposal option option"

text \<open>What \<^verbatim>\<open>openai.chat.completions.create\<close> gives back.\<close>

datatype api_response =
    ApiThrows exn
  | NoChoices
  | NoMessage
  | Message "string option"

text \<open>The default step of the \<^verbatim>\<open>catch\<close> block of \<open>generateNextStep\<close>.\<close>

definition defaultStep :: proposal where
  \<open>defaultStep =
     \<lparr>p_json = ''{"thought":"Unable to determine next step due to an error","action":"SUMMARIZE","params":{}}'',
      p_thought = ''Unable to determine next step due to an error'',
      p_action = ''SUMMARIZE'',
      p_params = True,
      p_selector = None, p_url = None, p_text = None, p_ms = None,
      p_direction = None, p_value = None\<rparr>\<close>

subsection \<open>\<open>generateNextStep\<close>, router (qa\_analysis.ts:46)\<close>

text \<open>
  \<^verbatim>\<open>content.match(/\{[\s\S]*\}/)\<close>: from the first \<^verbatim>\<open>{\<close> to the last \<^verbatim>\<open>}\<close> after it.
\<close>

definition extractObject :: "string \<Rightarrow> string option" where
  "extractObject c =
     (let t = dropWhile (\<lambda>x. x \<noteq> CHR ''{'') c
      in if CHR ''}'' \<in> set t
         then Some (rev (dropWhile (\<lambda>x. x \<noteq> CHR ''}'') (rev t)))
         else None)"

text \<open>The body of the outer \<^verbatim>\<open>try\<close>: \<open>Inl\<close> is a \<^verbatim>\<open>throw\<close>.\<close>

definition generateNextStep_router_try :: "json_parser \<Rightarrow> api_response \<Rightarrow> exn + proposal option" where
  "generateNextStep_router_try P r =
     (case r of
        ApiThrows e \<Rightarrow> Inl e
      | NoChoices \<Rightarrow> Inl (Error ''Unexpected response structure from OpenAI API'')
      | NoMessage \<Rightarrow> Inl (Error ''Unexpected response structure from OpenAI API'')
      | Message None \<Rightarrow> Inl (Error ''Empty response from OpenAI API'')
      | Message (Some c) \<Rightarrow>
          if c = [] then Inl (Error ''Empty response from OpenAI API'')
          else (case P c of
                  Some j \<Rightarrow> Inr j
                | None \<Rightarrow>
                    (case extractObject c of
                       None \<Rightarrow> Inl (Error ''Unable to parse response as JSON'')
                     | Some sub \<Rightarrow>
                         (case P sub of
                            Some j \<Rightarrow> Inr j
                          | None \<Rightarrow> Inl (Error ''Unable to parse response as JSON'')))))"

definition generateNextStep_router :: "json_parser \<Rightarrow> api_response \<Rightarrow> proposal option" where
  "generateNextStep_router P r =
     (case generateNextStep_router_try P r of
        Inl e \<Rightarrow> Some defaultStep
      | Inr j \<Rightarrow> j)"

subsection \<open>\<open>generateNextStep\<close>, service (qualityAnalysis.ts:47)\<close>

text \<open>
  A string is a sequence of bytes; a character outside ASCII is its UTF-8 encoding.
  The white space of JavaScript (what \<^verbatim>\<open>\s\<close> matches in a regular expression and what
  \<^verbatim>\<open>trim()\<close> removes) is TAB, LF, VT, FF, CR, SP, U+00A0, U+1680, U+2000 to U+200A,
  U+2028, U+2029, U+202F, U+205F, U+3000 and U+FEFF. The line terminators (what \<^verbatim>\<open>.\<close>
  does not match, and before which \<^verbatim>\<open>$\<close> matches under the flag \<^verbatim>\<open>m\<close>) are LF, CR, U+2028
  and U+2029.
\<close>

definition whiteSpace :: "string list" where
  "whiteSpace =
     [[CHR 0x09], [CHR 0x0A], [CHR 0x0B], [CHR 0x0C], [CHR 0x0D], [CHR 0x20],
      [CHR 0xC2, CHR 0xA0],
      [CHR 0xE1, CHR 0x9A, CHR 0x80],
      [CHR 0xE2, CHR 0x80, CHR 0x80], [CHR 0xE2, CHR 0x80, CHR 0x81],
      [CHR 0xE2, CHR 0x80, CHR 0x82], [CHR 0xE2, CHR 0x80, CHR 0x83],
      [CHR 0xE2, CHR 0x80, CHR 0x84], [CHR 0xE2, CHR 0x80, CHR 0x85],
      [CHR 0xE2, CHR 0x80, CHR 0x86], [CHR 0xE2, CHR 0x80, CHR 0x87],
      [CHR 0xE2, CHR 0x80, CHR 0x88], [CHR 0xE2, CHR 0x80, CHR 0x89],
      [CHR 0xE2, CHR 0x80, CHR 0x8A],
      [CHR 0xE2, CHR 0x80, CHR 0xA8], [CHR 0xE2, CHR 0x80, CHR 0xA9],
      [CHR 0xE2, CHR 0x80, CHR 0xAF],
      [CHR 0xE2, CHR 0x81, CHR 0x9F],
      [CHR 0xE3, CHR 0x80, CHR 0x80],
      [CHR 0xEF, CHR 0xBB, CHR 0xBF]]"

definition lineTerminators :: "string list" where
  "lineTerminators =
     [[CHR 0x0A], [CHR 0x0D], [CHR 0xE2, CHR 0x80, CHR 0xA8], [CHR 0xE2, CHR 0x80, CHR 0xA9]]"

text \<open>
  The length of the first of the sequences \<open>ws\<close> that \<open>s\<close> starts with, 0 when it starts
  with none of them; and \<open>s\<close> without the longest run of such sequences it starts with.
\<close>

definition matchLength :: "string list \<Rightarrow> string \<Rightarrow> nat" where
  "matchLength ws s = (case find (startsWith s) ws of None \<Rightarrow> 0 | Some w \<Rightarrow> length w)"

lemma matchLength_drop:
  assumes "0 < matchLength ws s"
  shows "length s - matchLength ws s < length s"
proof -
  obtain w where w: "find (startsWith s) ws = Some w" "length w \<noteq> 0"
    using assms by (auto simp: matchLength_def split: option.splits)
  then have "startsWith s w" by (auto simp: find_Some_iff)
  then have "take (length w) s = w" by (simp add: startsWith_def)
  then have "s \<noteq> []" using w(2) by auto
  then have "0 < length s" by simp
  then show ?thesis using assms by simp
qed

function dropLeading :: "string list \<Rightarrow> string \<Rightarrow> string" where
  "dropLeading ws s =
     (if matchLength ws s = 0 then s else dropLeading ws (drop (matchLength ws s) s))"
  by pat_completeness auto
termination
  by (relation "measure (\<lambda>(ws, s). length s)") (simp_all add: matchLength_drop)

declare dropLeading.simps [simp del]

text \<open>\<^verbatim>\<open>.replace(/^```json\s*/, '')\<close>\<close>

definition stripFenceStart :: "string \<Rightarrow> string" where
  "stripFenceStart s =
     (if startsWith s ''```json'' then dropLeading whiteSpace (drop 7 s) else s)"

text \<open>\<^verbatim>\<open>.replace(/\s*```$/, '')\<close>\<close>

definition stripFenceEnd :: "string \<Rightarrow> string" where
  "stripFenceEnd s =
     (if startsWith (rev s) ''```''
      then rev (dropLeading (map rev whiteSpace) (drop 3 (rev s)))
      else s)"

text \<open>
  \<^verbatim>\<open>.replace(/\/\/.*$/gm, '')\<close>: on every line, everything from the first \<^verbatim>\<open>//\<close> on.
  The flag says whether the scan is inside a match.
\<close>

fun stripComments :: "bool \<Rightarrow> string \<Rightarrow> string" where
  "stripComments inside [] = []"
| "stripComments True (c # cs) =
     (if matchLength lineTerminators (c # cs) \<noteq> 0 then c # stripComments False cs
      else stripComments True cs)"
| "stripComments False (c # cs) =
     (if c = CHR ''/'' \<and> startsWith cs ''/'' then stripComments True cs
      else c # stripComments False cs)"

definition cleanedContent :: "string \<Rightarrow> string" where
  "cleanedContent c = stripComments False (stripFenceEnd (stripFenceStart c))"

text \<open>
  \<open>html\<close> is what \<^verbatim>\<open>page.evaluate(() => document.documentElement.outerHTML)\<close> did: it is
  inside the \<^verbatim>\<open>try\<close>, so its exception ends in the default step as well.
\<close>

definition generateNextStep_service_try ::
  "json_parser \<Rightarrow> exn + string \<Rightarrow> api_response \<Rightarrow> exn + proposal option" where
  "generateNextStep_service_try P html r =
     (case html of
        Inl e \<Rightarrow> Inl e
      | Inr h \<Rightarrow>
          (case r of
             ApiThrows e \<Rightarrow> Inl e
           | NoChoices \<Rightarrow> Inl (Error ''Unexpected response structure from OpenAI API'')
           | NoMessage \<Rightarrow> Inl (Error ''Unexpected response structure from OpenAI API'')
           | Message None \<Rightarrow> Inl (Error ''Empty response from OpenAI API'')
           | Message (Some c) \<Rightarrow>
               if c = [] then Inl (Error ''Empty response from OpenAI API'')
               else (case P (cleanedContent c) of
                       Some j \<Rightarrow> Inr j
                     | None \<Rightarrow> Inl (Error ''JSONError''))))"

definition generateNextStep_service ::
  "json_parser \<Rightarrow> exn + string \<Rightarrow> api_response \<Rightarrow> proposal option" where
  "generateNextStep_service P html r =
     (case generateNextStep_service_try P html r of
        Inl e \<Rightarrow> Some defaultStep
      | Inr j \<Rightarrow> j)"

subsection \<open>Run state, browser calls, page events\<close>

datatype variant = Router | Service

definition maxSteps :: "variant \<Rightarrow> nat" where
  "maxSteps v = (case v of Router \<Rightarrow> 10 | Service \<Rightarrow> 15)"

text \<open>
  The calls that act on the browser: session set-up and tear-down, navigation, and the
  helpers the \<^verbatim>\<open>switch\<close> of the loop invokes. \<open>Launch\<close> and \<open>NewPage\<close> are recorded when
  the call returned; all others when the call is made, whether it then throws or not.
  Reads of the page (\<^verbatim>\<open>extractPageContent\<close>, \<^verbatim>\<open>page.url()\<close>, \<^verbatim>\<open>page.$\<close>,
  \<^verbatim>\<open>checkIfVideoPlaying\<close>) are inputs and are not recorded.
\<close>

datatype browser_op =
    Launch
  | NewPage
  | Goto string
  | ClickElement string
  | ClickWithRetry string
  | TypeText string "string option"
  | PressEnter
  | Wait nat
  | TakeScreenshot
  | ExtractLinks
  | SummarizePage
  | Scroll string
  | HighlightElements string
  | SelectOption string string
  | ClickByLabel "string option"
  | WaitForVideo
  | ClickPlayButton
  | TypeIntoSearch "string option"
  | WaitForNavigation
  | Close

text \<open>
  The local variables of \<open>runQualityAnalysis\<close>, and the trace of browser calls.
  \<open>pageErrorOccurred\<close> exists in the service only.
\<close>

record run_state =
  result :: string
  currentState :: string
  screenshots :: "string list"
  completedActions :: "string list"
  videoClicked :: bool
  criticalErrorOccurred :: bool
  errors :: "string list"
  actionAttempts :: "string \<rightharpoonup> nat"
  pageErrorOccurred :: bool
  taskCompleted :: bool
  stepCount :: nat
  ops :: "browser_op list"

text \<open>
  The object a run returns: \<^verbatim>\<open>{ result, screenshots, error }\<close>, where \<^verbatim>\<open>screenshots\<close>
  and \<^verbatim>\<open>error\<close> may be missing. It has no completion flag.
\<close>

record outcome =
  o_result :: string
  o_screenshots :: "string list option"
  o_error :: "string option"

definition logLine :: "string \<Rightarrow> run_state \<Rightarrow> run_state" where
  "logLine l s = s\<lparr>result := result s @ l\<rparr>"

definition call :: "browser_op \<Rightarrow> run_state \<Rightarrow> run_state" where
  "call op s = s\<lparr>ops := ops s @ [op]\<rparr>"

text \<open>
  The events the handlers registered with \<^verbatim>\<open>page.on\<close> receive: a console message (type
  and text), a failed request (url, and the error text of \<^verbatim>\<open>request.failure()\<close>, which
  may be null), an uncaught page exception (message).
\<close>

datatype page_event =
    ConsoleMsg string string
  | RequestFailed string "string option"
  | PageError string

definition onConsole :: "variant \<Rightarrow> string \<Rightarrow> string \<Rightarrow> run_state \<Rightarrow> run_state" where
  "onConsole v ty txt s =
     (if ty = ''error'' \<or> ty = (case v of Router \<Rightarrow> ''warning'' | Service \<Rightarrow> ''warn'')
      then s\<lparr>errors := errors s @ [''Console '' @ ty @ '': '' @ txt]\<rparr>
      else s)"

definition onRequestFailed :: "string \<Rightarrow> string option \<Rightarrow> run_state \<Rightarrow> run_state" where
  "onRequestFailed u failure s =
     (case failure of
        None \<Rightarrow> s
      | Some errorText \<Rightarrow>
          if errorText \<noteq> ''net::ERR_ABORTED''
          then (let s1 = s\<lparr>errors := errors s @ [''Network error: '' @ u @ '' '' @ errorText]\<rparr>
                in if str_includes errorText ''ERR_CONNECTION_REFUSED''
                      \<or> str_includes errorText ''ERR_NAME_NOT_RESOLVED''
                   then s1\<lparr>criticalErrorOccurred := True\<rparr>
                   else s1)
          else s)"

text \<open>The router registers no \<^verbatim>\<open>pageerror\<close> handler.\<close>

definition onPageError :: "variant \<Rightarrow> string \<Rightarrow> run_state \<Rightarrow> run_state" where
  "onPageError v errorMessage s =
     (case v of
        Router \<Rightarrow> s
      | Service \<Rightarrow>
          (let s1 = (if str_includes errorMessage ''React''
                        \<or> str_includes errorMessage ''must be used within''
                     then (logLine (''Critical React Error: '' @ errorMessage @ nl) s)
                            \<lparr>criticalErrorOccurred := True\<rparr>
                     else logLine (''Page Error: '' @ errorMessage @ nl) s)
           in s1\<lparr>errors := errors s1 @ [''Page error: '' @ errorMessage],
                 pageErrorOccurred := True\<rparr>))"

definition handleEvent :: "variant \<Rightarrow> page_event \<Rightarrow> run_state \<Rightarrow> run_state" where
  "handleEvent v ev s =
     (case ev of
        ConsoleMsg ty txt \<Rightarrow> onConsole v ty txt s
      | RequestFailed u failure \<Rightarrow> onRequestFailed u failure s
      | PageError m \<Rightarrow> onPageError v m s)"

definition handleEvents :: "variant \<Rightarrow> page_event list \<Rightarrow> run_state \<Rightarrow> run_state" where
  "handleEvents v evs s = fold (handleEvent v) evs s"

subsection \<open>One iteration of the loop (qa\_analysis.ts:147, qualityAnalysis.ts:364)\<close>

text \<open>
  What one iteration reads from the outside, in the order of the code:
  \<^item> \<open>e_pageContent\<close>: \<^verbatim>\<open>extractPageContent(page)\<close>;
  \<^item> \<open>e_html\<close>, \<open>e_reply\<close>: the page's HTML (service) and the model's reply, both inside
    \<open>generateNextStep\<close>;
  \<^item> \<open>e_exec\<close>: the helper called by the \<^verbatim>\<open>switch\<close>: its exception, or what it returned
    (the screenshot, the links as JSON text, the summary; empty for the others);
  \<^item> \<open>e_navUrl\<close>: \<^verbatim>\<open>page.url()\<close> right after a navigation;
  \<^item> \<open>e_dom\<close>: \<^verbatim>\<open>page.$\<close> in \<open>findAlternativeSelector\<close>: its exception, or which
    selectors have an element;
  \<^item> \<open>e_altExec\<close>: the exception of the click or type on the alternative selector;
  \<^item> \<open>e_pressEnter\<close>: the exception of \<^verbatim>\<open>page.keyboard.press('Enter')\<close> (oldest variant);
  \<^item> \<open>e_url\<close>: \<^verbatim>\<open>page.url()\<close> after the step;
  \<^item> \<open>e_playing\<close>: \<^verbatim>\<open>checkIfVideoPlaying(page)\<close>;
  \<^item> \<open>e_completion\<close>: \<^verbatim>\<open>checkTaskCompletion\<close> (router): its exception, or the truth
    value of \<^verbatim>\<open>completed\<close> and the reason;
  \<^item> \<open>e_events\<close>: the page events that fired, in order, while the iteration was
    suspended at each of its \<^verbatim>\<open>await\<close>s. A handler runs when its event fires, so what it
    writes (the critical flag, the collected errors, in the service the transcript lines
    of \<^verbatim>\<open>pageerror\<close>) is written at that point of the iteration.
\<close>

text \<open>
  The points at which an iteration is suspended while the page can emit events: the
  read of the page content, \<open>generateNextStep\<close>, the helper called by the \<^verbatim>\<open>switch\<close> (or
  its timer), \<open>findAlternativeSelector\<close>, the call on the alternative selector,
  \<open>checkIfVideoPlaying\<close> and \<open>checkTaskCompletion\<close>. (\<^verbatim>\<open>await page.url()\<close> awaits a
  string: no event is dispatched there.)
\<close>

datatype await_point = AtRead | AtDecide | AtAct | AtFind | AtAlt | AtVideo | AtCheck

record iter_env =
  e_pageContent :: "exn + string"
  e_html :: "exn + string"
  e_reply :: api_response
  e_exec :: "exn + string"
  e_navUrl :: string
  e_dom :: "exn + (string \<Rightarrow> bool)"
  e_altExec :: "exn option"
  e_pressEnter :: "exn option"
  e_url :: string
  e_playing :: "exn + bool"
  e_completion :: "exn + bool \<times> string"
  e_events :: "await_point \<Rightarrow> page_event list"

text \<open>What the handlers do while the iteration is suspended at \<open>a\<close>.\<close>

definition during :: "variant \<Rightarrow> iter_env \<Rightarrow> await_point \<Rightarrow> run_state \<Rightarrow> run_state" where
  "during v env a s = handleEvents v (e_events env a) s"

definition actionKey :: "proposal \<Rightarrow> string" where
  "actionKey p = p_action p @ ''_'' @ orElse (p_selector p) []"

text \<open>
  \<open>actionAttempts\<close> is a plain object used as a dictionary; the map holds its own
  numeric properties. \<^verbatim>\<open>actionAttempts[k] && actionAttempts[k] >= 3\<close> is true exactly
  when \<open>k\<close> has a count of 3 or more: an absent key reads \<^verbatim>\<open>undefined\<close>, and a key that
  names a property inherited from \<^verbatim>\<open>Object.prototype\<close> reads a function or an object,
  for which the comparison is false.
\<close>

definition repeated :: "(string \<rightharpoonup> nat) \<Rightarrow> string \<Rightarrow> bool" where
  "repeated m k = (case m k of None \<Rightarrow> False | Some n \<Rightarrow> 3 \<le> n)"

text \<open>
  The keys of the form \<open>action_selector\<close> that \<^verbatim>\<open>Object.prototype\<close> defines. For them
  \<^verbatim>\<open>(actionAttempts[k] || 0) + 1\<close> is a string, never a count.
\<close>

definition inheritedKey :: "string \<Rightarrow> bool" where
  "inheritedKey k =
     (k \<in> set [''__proto__'', ''__defineGetter__'', ''__defineSetter__'',
               ''__lookupGetter__'', ''__lookupSetter__''])"

definition recordAttempt :: "(string \<rightharpoonup> nat) \<Rightarrow> string \<Rightarrow> (string \<rightharpoonup> nat)" where
  "recordAttempt m k =
     (case m k of
        Some n \<Rightarrow> m(k \<mapsto> n + 1)
      | None \<Rightarrow> if inheritedKey k then m else m(k \<mapsto> 1))"

text \<open>
  A helper call inside the \<^verbatim>\<open>try\<close>: the call is recorded, and \<open>h\<close> is what the handlers
  do while it is awaited; if it throws, the statements after it are not run; otherwise
  \<open>k\<close>, applied to what the helper returned, is the rest of the \<^verbatim>\<open>case\<close>.
\<close>

definition attempt ::
  "browser_op \<Rightarrow> iter_env \<Rightarrow> (run_state \<Rightarrow> run_state) \<Rightarrow> run_state
     \<Rightarrow> (string \<Rightarrow> run_state \<Rightarrow> run_state) \<Rightarrow> run_state \<times> exn option" where
  "attempt op env h s k =
     (case e_exec env of
        Inl e \<Rightarrow> (h (call op s), Some e)
      | Inr r \<Rightarrow> (k r (h (call op s)), None))"

definition pushCompleted :: "string \<Rightarrow> run_state \<Rightarrow> run_state" where
  "pushCompleted a s = s\<lparr>completedActions := completedActions s @ [a]\<rparr>"

definition isVideoSelector :: "string \<Rightarrow> bool" where
  "isVideoSelector sel = (sel = ''#video-title'' \<or> sel = ''a[title]'')"

definition waitMs :: "nat option \<Rightarrow> nat" where
  "waitMs m = (case m of None \<Rightarrow> 1000 | Some n \<Rightarrow> if n = 0 then 1000 else n)"

text \<open>
  The \<^verbatim>\<open>switch (nextStep.action)\<close>. The result is the state when the \<^verbatim>\<open>switch\<close> is left
  and the exception that left it, if any. \<open>clickWithRetry\<close> (service) catches every
  exception of its own and its boolean result is not read; the timer of \<open>WAIT\<close> cannot
  throw. The router has no \<open>SELECT\<close> case.
\<close>

definition switchAction ::
  "variant \<Rightarrow> iter_env \<Rightarrow> proposal \<Rightarrow> run_state \<Rightarrow> run_state \<times> exn option" where
  "switchAction v env p s =
    (let sel = orElse (p_selector p) []; h = during v env AtAct in
     if p_action p = ''NAVIGATE'' then
       (if truthy (p_url p) \<and> ''NAVIGATE'' \<notin> set (completedActions s)
        then attempt (Goto (orElse (p_url p) [])) env h s
               (\<lambda>r t. pushCompleted ''NAVIGATE'' (t\<lparr>currentState := ''URL: '' @ e_navUrl env\<rparr>))
        else (s, None))
     else if p_action p = ''CLICK'' then
       (if truthy (p_selector p)
        then (let done = (\<lambda>t. let t1 = pushCompleted (''CLICK_'' @ sel) t
                               in if isVideoSelector sel then t1\<lparr>videoClicked := True\<rparr> else t1)
              in case v of
                   Router \<Rightarrow> attempt (ClickElement sel) env h s (\<lambda>r. done)
                 | Service \<Rightarrow> (done (h (call (ClickWithRetry sel) s)), None))
        else (s, None))
     else if p_action p = ''TYPE'' then
       (if truthy (p_selector p) \<and> truthy (p_text p)
        then attempt (TypeText sel (p_text p)) env h s (\<lambda>r. pushCompleted (''TYPE_'' @ sel))
        else (s, None))
     else if p_action p = ''WAIT'' then
       (pushCompleted ''WAIT'' (h (call (Wait (waitMs (p_ms p))) s)), None)
     else if p_action p = ''SCREENSHOT'' then
       attempt TakeScreenshot env h s
         (\<lambda>r t. pushCompleted ''SCREENSHOT'' (t\<lparr>screenshots := screenshots t @ [r]\<rparr>))
     else if p_action p = ''EXTRACT_LINKS'' then
       attempt ExtractLinks env h s
         (\<lambda>r t. pushCompleted ''EXTRACT_LINKS'' (logLine (''Links: '' @ r @ nl) t))
     else if p_action p = ''SUMMARIZE'' then
       attempt SummarizePage env h s
         (\<lambda>r t. (pushCompleted ''SUMMARIZE'' (logLine (''Summary: '' @ r @ nl) t))
                   \<lparr>taskCompleted := True\<rparr>)
     else if p_action p = ''SCROLL'' then
       attempt (Scroll (orElse (p_direction p) ''down'')) env h s (\<lambda>r. pushCompleted ''SCROLL'')
     else if p_action p = ''HIGHLIGHT'' then
       (if truthy (p_selector p)
        then attempt (HighlightElements sel) env h s (\<lambda>r. pushCompleted (''HIGHLIGHT_'' @ sel))
        else (s, None))
     else if p_action p = ''SELECT'' \<and> v = Service then
       (if truthy (p_selector p) \<and> truthy (p_value p)
        then attempt (SelectOption sel (orElse (p_value p) [])) env h s
               (\<lambda>r. pushCompleted (''SELECT_'' @ sel))
        else (s, None))
     else (logLine (''Unknown action: '' @ p_action p @ nl) s, None))"

text \<open>The fixed list of \<open>findAlternativeSelector\<close>, and its first-match search.\<close>

definition alternatives :: "string list" where
  \<open>alternatives =
     [''#video-title'', ''.ytd-video-renderer'', ''a.ytd-video-renderer'',
      ''#contents ytd-video-renderer'', ''ytd-video-renderer #video-title'',
      ''ytd-video-renderer .ytd-video-renderer'', ''a.ytd-video-renderer h3'',
      ''#contents .ytd-video-renderer h3'', ''a[href^="/watch"]'', ''a[title]'']\<close>

definition findAlternativeSelector :: "exn + (string \<Rightarrow> bool) \<Rightarrow> exn + string option" where
  "findAlternativeSelector page =
     (case page of
        Inl e \<Rightarrow> Inl e
      | Inr present \<Rightarrow> Inr (find present alternatives))"

text \<open>
  The \<^verbatim>\<open>catch (stepError)\<close> of the step. An exception raised here is not caught by
  the loop: the second component is the exception that leaves the iteration.
\<close>

definition catchStepError ::
  "variant \<Rightarrow> iter_env \<Rightarrow> proposal \<Rightarrow> exn \<Rightarrow> run_state \<Rightarrow> run_state \<times> exn option" where
  "catchStepError v env p stepError s =
    (let s1 = logLine (''Error executing step: '' @ message stepError @ nl) s in
     if p_action p = ''CLICK'' \<or> p_action p = ''TYPE'' then
       (let s1' = during v env AtFind s1 in
        case findAlternativeSelector (e_dom env) of
          Inl e \<Rightarrow> (s1', Some e)
        | Inr None \<Rightarrow> (s1', None)
        | Inr (Some alt) \<Rightarrow>
            (let s2 = logLine (''Trying alternative selector: '' @ alt @ nl) s1';
                 s3 = during v env AtAlt
                        (call (if p_action p = ''CLICK''
                               then (case v of Router \<Rightarrow> ClickElement alt
                                             | Service \<Rightarrow> ClickWithRetry alt)
                               else TypeText alt (p_text p)) s2);
                 thrown = (if p_action p = ''CLICK'' \<and> v = Service then None
                           else e_altExec env)
             in case thrown of
                  Some e \<Rightarrow> (s3, Some e)
                | None \<Rightarrow>
                    (let s4 = logLine (''Step completed successfully with alternative selector'' @ nl) s3
                     in (if p_action p = ''CLICK'' \<and> isVideoSelector alt
                         then s4\<lparr>videoClicked := True\<rparr> else s4, None))))
     else (s1, None))"

text \<open>The \<^verbatim>\<open>try\<close> statement of the step: \<^verbatim>\<open>switch\<close>, success line, \<^verbatim>\<open>catch\<close>.\<close>

definition tryStep ::
  "variant \<Rightarrow> iter_env \<Rightarrow> proposal \<Rightarrow> run_state \<Rightarrow> run_state \<times> exn option" where
  "tryStep v env p s =
     (case switchAction v env p s of
        (t, None) \<Rightarrow> (logLine (''Step completed successfully'' @ nl) t, None)
      | (t, Some stepError) \<Rightarrow> catchStepError v env p stepError t)"

text \<open>How an iteration ends.\<close>

datatype iter_result =
    Continue run_state
  | Break run_state
  | Return run_state outcome
  | Throw run_state exn

text \<open>
  The video check: \<open>Inl\<close> when \<open>checkIfVideoPlaying\<close> throws, with the state in which it
  does.
\<close>

definition videoCheck ::
  "(run_state \<Rightarrow> run_state) \<Rightarrow> iter_env \<Rightarrow> run_state \<Rightarrow> run_state \<times> exn + run_state" where
  "videoCheck h env s =
     (if videoClicked s
      then (case e_playing env of
              Inl e \<Rightarrow> Inl (h s, e)
            | Inr isPlaying \<Rightarrow>
                Inr (if isPlaying
                     then logLine (''Task completed: Video is playing.'' @ nl)
                            ((h s)\<lparr>taskCompleted := True\<rparr>)
                     else h s))
      else Inr s)"

text \<open>
  The statements after the \<^verbatim>\<open>try\<close>: the new \<open>currentState\<close>, \<^verbatim>\<open>stepCount++\<close>, the video
  check and, in the router only, the completion check.
\<close>

definition afterStep :: "variant \<Rightarrow> iter_env \<Rightarrow> proposal \<Rightarrow> run_state \<Rightarrow> iter_result" where
  "afterStep v env p s =
    (let s1 = s\<lparr>currentState :=
                   ''URL: '' @ e_url env @ nl @ ''Last action: '' @ p_action p @ nl
                     @ ''Completed actions: '' @ join '', '' (completedActions s),
                 stepCount := stepCount s + 1\<rparr>
     in case videoCheck (during v env AtVideo) env s1 of
          Inl (t, e) \<Rightarrow> Throw t e
        | Inr s2 \<Rightarrow>
            (case v of
               Service \<Rightarrow> Continue s2
             | Router \<Rightarrow>
                 (let s3 = during v env AtCheck s2
                  in case e_completion env of
                       Inl e \<Rightarrow> Throw s3 e
                     | Inr (completed, reason) \<Rightarrow>
                         Continue (if completed
                                   then logLine (''Task completed: '' @ reason @ nl)
                                          (s3\<lparr>taskCompleted := True\<rparr>)
                                   else s3))))"

definition generateNextStep :: "variant \<Rightarrow> json_parser \<Rightarrow> iter_env \<Rightarrow> proposal option" where
  "generateNextStep v P env =
     (case v of
        Router \<Rightarrow> generateNextStep_router P (e_reply env)
      | Service \<Rightarrow> generateNextStep_service P (e_html env) (e_reply env))"

text \<open>
  The state after the two reads that open an iteration, \<open>extractPageContent\<close> and
  \<open>generateNextStep\<close>: what the handlers wrote while they were awaited.
\<close>

definition afterReads :: "variant \<Rightarrow> iter_env \<Rightarrow> run_state \<Rightarrow> run_state" where
  "afterReads v env s = during v env AtDecide (during v env AtRead s)"

text \<open>
  The body of the \<^verbatim>\<open>while\<close> loop. The critical flag is read once, at the head; the step
  line, the repetition guard and the step come after the two reads.
\<close>

definition iteration :: "variant \<Rightarrow> json_parser \<Rightarrow> iter_env \<Rightarrow> run_state \<Rightarrow> iter_result" where
  "iteration v P env s =
    (if criticalErrorOccurred s then
       (let s1 = logLine (''Critical error occurred. Stopping further actions.'' @ nl) s
        in Return s1 \<lparr>o_result = result s1, o_screenshots = Some (screenshots s1),
                      o_error = Some ''Critical error''\<rparr>)
     else
       (case e_pageContent env of
          Inl e \<Rightarrow> Throw (during v env AtRead s) e
        | Inr pageContent \<Rightarrow>
            (let s0 = afterReads v env s in
             case generateNextStep v P env of
               None \<Rightarrow>
                 Break (logLine (''Step '' @ string_of_nat (stepCount s0 + 1)
                                   @ '': Failed to generate next step'' @ nl) s0)
             | Some nextStep \<Rightarrow>
                 (let s1 = logLine (''Step '' @ string_of_nat (stepCount s0 + 1) @ '': ''
                                      @ p_json nextStep @ nl) s0
                  in if repeated (actionAttempts s1) (actionKey nextStep) then
                       Continue ((logLine (''Skipping repeated action: '' @ actionKey nextStep @ nl) s1)
                                   \<lparr>stepCount := stepCount s1 + 1\<rparr>)
                     else
                       (let s2 = s1\<lparr>actionAttempts :=
                                       recordAttempt (actionAttempts s1) (actionKey nextStep)\<rparr>
                        in case tryStep v env nextStep s2 of
                             (s3, Some e) \<Rightarrow> Throw s3 e
                           | (s3, None) \<Rightarrow> afterStep v env nextStep s3)))))"

definition state_of :: "iter_result \<Rightarrow> run_state" where
  "state_of r = (case r of Continue s \<Rightarrow> s | Break s \<Rightarrow> s | Return s out \<Rightarrow> s | Throw s e \<Rightarrow> s)"

subsection \<open>The loop\<close>

text \<open>Facts about one iteration that the termination of the loop rests on.\<close>

lemma handleEvent_frame:
  "stepCount (handleEvent v ev s) = stepCount s"
  "taskCompleted (handleEvent v ev s) = taskCompleted s"
  "actionAttempts (handleEvent v ev s) = actionAttempts s"
  "ops (handleEvent v ev s) = ops s"
  "completedActions (handleEvent v ev s) = completedActions s"
  "screenshots (handleEvent v ev s) = screenshots s"
  "currentState (handleEvent v ev s) = currentState s"
  "videoClicked (handleEvent v ev s) = videoClicked s"
  by (simp_all add: handleEvent_def onConsole_def onRequestFailed_def onPageError_def
        logLine_def Let_def split: page_event.splits option.splits variant.splits)

lemma handleEvents_frame:
  "stepCount (handleEvents v evs s) = stepCount s"
  "taskCompleted (handleEvents v evs s) = taskCompleted s"
  "actionAttempts (handleEvents v evs s) = actionAttempts s"
  "ops (handleEvents v evs s) = ops s"
  "completedActions (handleEvents v evs s) = completedActions s"
  "screenshots (handleEvents v evs s) = screenshots s"
  "currentState (handleEvents v evs s) = currentState s"
  "videoClicked (handleEvents v evs s) = videoClicked s"
  unfolding handleEvents_def
  by (induction evs arbitrary: s) (simp_all add: handleEvent_frame)

lemma during_frame:
  "stepCount (during v env a s) = stepCount s"
  "taskCompleted (during v env a s) = taskCompleted s"
  "actionAttempts (during v env a s) = actionAttempts s"
  "ops (during v env a s) = ops s"
  "completedActions (during v env a s) = completedActions s"
  "screenshots (during v env a s) = screenshots s"
  "currentState (during v env a s) = currentState s"
  "videoClicked (during v env a s) = videoClicked s"
  by (simp_all add: during_def handleEvents_frame)

lemma afterReads_frame:
  "stepCount (afterReads v env s) = stepCount s"
  "taskCompleted (afterReads v env s) = taskCompleted s"
  "actionAttempts (afterReads v env s) = actionAttempts s"
  "ops (afterReads v env s) = ops s"
  "completedActions (afterReads v env s) = completedActions s"
  "screenshots (afterReads v env s) = screenshots s"
  "currentState (afterReads v env s) = currentState s"
  "videoClicked (afterReads v env s) = videoClicked s"
  by (simp_all add: afterReads_def during_frame)

lemma switchAction_frame:
  "stepCount (fst (switchAction v env p s)) = stepCount s"
  "actionAttempts (fst (switchAction v env p s)) = actionAttempts s"
  by (auto simp: switchAction_def attempt_def call_def pushCompleted_def logLine_def Let_def
        during_frame split: if_splits sum.splits variant.splits)

lemma catchStepError_frame:
  "stepCount (fst (catchStepError v env p e s)) = stepCount s"
  "actionAttempts (fst (catchStepError v env p e s)) = actionAttempts s"
  by (auto simp: catchStepError_def call_def logLine_def Let_def during_frame
        split: if_splits sum.splits option.splits variant.splits)

lemma tryStep_frame:
  "stepCount (fst (tryStep v env p s)) = stepCount s"
  "actionAttempts (fst (tryStep v env p s)) = actionAttempts s"
proof -
  obtain t x where sw: "switchAction v env p s = (t, x)"
    by (cases "switchAction v env p s")
  have t: "stepCount t = stepCount s" "actionAttempts t = actionAttempts s"
    using switchAction_frame [of v env p s] sw by simp_all
  show "stepCount (fst (tryStep v env p s)) = stepCount s"
    "actionAttempts (fst (tryStep v env p s)) = actionAttempts s"
    using sw t by (cases x; simp add: tryStep_def logLine_def catchStepError_frame)+
qed

lemma afterStep_Continue:
  "afterStep v env p s = Continue s' \<Longrightarrow> stepCount s' = stepCount s + 1"
  by (auto simp: afterStep_def videoCheck_def Let_def logLine_def during_frame
        split: if_splits sum.splits variant.splits prod.splits)

text \<open>
  The five ways through the body: the critical-error return, the exception of the page
  read, the \<^verbatim>\<open>break\<close> on a missing step, the skip of the repetition guard, and the
  executed step.
\<close>

lemma iteration_cases:
  obtains
    (critical) "criticalErrorOccurred s"
  | (read_throws) e where "\<not> criticalErrorOccurred s" "e_pageContent env = Inl e"
      "iteration v P env s = Throw (during v env AtRead s) e"
  | (no_step) c where "\<not> criticalErrorOccurred s" "e_pageContent env = Inr c"
      "generateNextStep v P env = None"
  | (skipped) c p where "\<not> criticalErrorOccurred s" "e_pageContent env = Inr c"
      "generateNextStep v P env = Some p" "repeated (actionAttempts s) (actionKey p)"
  | (executed) c p where "\<not> criticalErrorOccurred s" "e_pageContent env = Inr c"
      "generateNextStep v P env = Some p" "\<not> repeated (actionAttempts s) (actionKey p)"
proof (cases "criticalErrorOccurred s")
  case True
  then show ?thesis by (rule critical)
next
  case nc: False
  show ?thesis
  proof (cases "e_pageContent env")
    case (Inl e)
    then show ?thesis using nc read_throws by (simp add: iteration_def)
  next
    case (Inr c)
    show ?thesis
    proof (cases "generateNextStep v P env")
      case None
      then show ?thesis using nc Inr no_step by simp
    next
      case (Some p)
      then show ?thesis using nc Inr skipped executed by blast
    qed
  qed
qed

text \<open>The state in which the \<^verbatim>\<open>try\<close> of an executed step starts.\<close>

definition beforeTry :: "proposal \<Rightarrow> run_state \<Rightarrow> run_state" where
  "beforeTry p s =
     (logLine (''Step '' @ string_of_nat (stepCount s + 1) @ '': '' @ p_json p @ nl) s)
       \<lparr>actionAttempts := recordAttempt (actionAttempts s) (actionKey p)\<rparr>"

lemma beforeTry_frame:
  "stepCount (beforeTry p s) = stepCount s"
  "ops (beforeTry p s) = ops s"
  "completedActions (beforeTry p s) = completedActions s"
  "screenshots (beforeTry p s) = screenshots s"
  "actionAttempts (beforeTry p s) = recordAttempt (actionAttempts s) (actionKey p)"
  "criticalErrorOccurred (beforeTry p s) = criticalErrorOccurred s"
  by (simp_all add: beforeTry_def logLine_def)

lemma iteration_no_step:
  assumes "\<not> criticalErrorOccurred s" "e_pageContent env = Inr c"
    "generateNextStep v P env = None"
  shows "iteration v P env s =
           Break (logLine (''Step '' @ string_of_nat (stepCount s + 1)
                             @ '': Failed to generate next step'' @ nl) (afterReads v env s))"
  using assms by (simp add: iteration_def Let_def afterReads_frame)

lemma iteration_executed:
  assumes "\<not> criticalErrorOccurred s" "e_pageContent env = Inr c"
    "generateNextStep v P env = Some p" "\<not> repeated (actionAttempts s) (actionKey p)"
  shows "iteration v P env s =
           (case tryStep v env p (beforeTry p (afterReads v env s)) of
              (s3, Some e) \<Rightarrow> Throw s3 e
            | (s3, None) \<Rightarrow> afterStep v env p s3)"
  using assms by (simp add: iteration_def beforeTry_def Let_def logLine_def afterReads_frame)

lemma iteration_skipped:
  assumes "\<not> criticalErrorOccurred s" "e_pageContent env = Inr c"
    "generateNextStep v P env = Some p" "repeated (actionAttempts s) (actionKey p)"
  shows "iteration v P env s =
           Continue ((afterReads v env s)
             \<lparr>result := result (afterReads v env s) @ ''Step '' @ string_of_nat (stepCount s + 1)
                          @ '': '' @ p_json p @ nl
                          @ ''Skipping repeated action: '' @ actionKey p @ nl,
              stepCount := stepCount s + 1\<rparr>)"
  using assms by (simp add: iteration_def Let_def logLine_def afterReads_frame)

lemma iteration_Continue:
  assumes a: "iteration v P env s = Continue s'"
  shows "stepCount s' = stepCount s + 1"
proof (cases rule: iteration_cases [where s = s and env = env and v = v and P = P])
  case critical
  then show ?thesis using a by (simp add: iteration_def Let_def)
next
  case (read_throws e)
  then show ?thesis using a by simp
next
  case (no_step c)
  then show ?thesis using a iteration_no_step [OF no_step] by simp
next
  case (skipped c p)
  then show ?thesis using a iteration_skipped [OF skipped] by auto
next
  case (executed c p)
  obtain s3 x where ts: "tryStep v env p (beforeTry p (afterReads v env s)) = (s3, x)"
    by (cases "tryStep v env p (beforeTry p (afterReads v env s))")
  have "stepCount s3 = stepCount (beforeTry p (afterReads v env s))"
    using tryStep_frame(1) [of v env p "beforeTry p (afterReads v env s)"] ts by simp
  then have s3: "stepCount s3 = stepCount s"
    by (simp add: beforeTry_frame afterReads_frame)
  have "afterStep v env p s3 = Continue s'"
    using a ts iteration_executed [OF executed] by (cases x) simp_all
  then show ?thesis using afterStep_Continue s3 by fastforce
qed

text \<open>How the loop is left.\<close>

datatype loop_exit =
    Done run_state
  | Returned run_state outcome
  | Thrown run_state exn

definition exit_state :: "loop_exit \<Rightarrow> run_state" where
  "exit_state x = (case x of Done s \<Rightarrow> s | Returned s out \<Rightarrow> s | Thrown s e \<Rightarrow> s)"

text \<open>
  \<^verbatim>\<open>while (!taskCompleted && stepCount < maxSteps)\<close>. \<open>E k\<close> is what the outside answers
  during the iteration that starts with step counter \<open>k\<close>. Beside the way the loop is
  left, the function gives the states in which the iterations started, in order: its
  length is the number of iterations.
\<close>

function loop ::
  "variant \<Rightarrow> json_parser \<Rightarrow> (nat \<Rightarrow> iter_env) \<Rightarrow> run_state \<Rightarrow> run_state list \<times> loop_exit" where
  "loop v P E s =
     (if \<not> taskCompleted s \<and> stepCount s < maxSteps v
      then (case iteration v P (E (stepCount s)) s of
              Continue s' \<Rightarrow> (case loop v P E s' of (tr, x) \<Rightarrow> (s # tr, x))
            | Break s' \<Rightarrow> ([s], Done s')
            | Return s' out \<Rightarrow> ([s], Returned s' out)
            | Throw s' e \<Rightarrow> ([s], Thrown s' e))
      else ([], Done s))"
  by pat_completeness auto
termination
  by (relation "measure (\<lambda>(v, P, E, s). maxSteps v - stepCount s)")
     (auto dest: iteration_Continue)

declare loop.simps [simp del]

subsection \<open>After the loop, and the whole run\<close>

record final_env =
  f_errorSummary :: "exn + string"
  f_errorEvents :: "page_event list"
  f_testSummary :: "exn + string"
  f_testEvents :: "page_event list"

text \<open>
  The statements between the loop and the final \<^verbatim>\<open>return\<close>: the budget line, the error
  summary and the test summary (both are calls of the language model and may throw).
  \<open>f_errorEvents\<close> and \<open>f_testEvents\<close> are the page events that fire while the two
  calls are awaited; the collected errors have been read before.
\<close>

definition finish :: "variant \<Rightarrow> final_env \<Rightarrow> run_state \<Rightarrow> exn + outcome" where
  "finish v fin s =
    (let s1 = (if \<not> taskCompleted s
               then logLine (''Maximum steps reached without completing the task.'' @ nl) s
               else s);
         criticalErrors =
           filter (\<lambda>error. \<not> str_includes error
                      ''Permissions policy violation: unload is not allowed'') (errors s1);
         summarized =
           (if criticalErrors \<noteq> []
            then (case f_errorSummary fin of
                    Inl e \<Rightarrow> Inl e
                  | Inr errorSummary \<Rightarrow>
                      Inr (logLine (nl @ ''Important Errors:'' @ nl @ errorSummary)
                             (handleEvents v (f_errorEvents fin) s1)))
            else Inr (logLine (nl @ ''No critical errors were detected during the test.'') s1))
     in case summarized of
          Inl e \<Rightarrow> Inl e
        | Inr s2 \<Rightarrow>
            (case f_testSummary fin of
               Inl e \<Rightarrow> Inl e
             | Inr testSummary \<Rightarrow>
                 (let s3 = logLine (nl @ ''Test Summary:'' @ nl @ testSummary)
                             (handleEvents v (f_testEvents fin) s2)
                  in Inr \<lparr>o_result = result s3, o_screenshots = Some (screenshots s3),
                          o_error = None\<rparr>)))"

text \<open>
  What \<^verbatim>\<open>page.goto\<close> of the initial navigation did: threw, lost the race against the
  59 s timer (service only), returned null, or returned a response with a status.
\<close>

datatype nav_result =
    NavThrows exn
  | NavTimeout
  | NavNull
  | NavResponse nat

text \<open>\<^verbatim>\<open>response.ok()\<close> of puppeteer: status 0 or 200 to 299.\<close>

definition ok :: "nat \<Rightarrow> bool" where
  "ok status = (status = 0 \<or> (200 \<le> status \<and> status \<le> 299))"

record run_env =
  r_launch :: "exn option"
  r_newPage :: "exn option"
  r_goto :: nav_result
  r_gotoEvents :: "page_event list"
  r_iter :: "nat \<Rightarrow> iter_env"
  r_final :: final_env
  r_close :: "exn option"

definition initialState :: "string \<Rightarrow> browser_op list \<Rightarrow> run_state" where
  "initialState url tr =
     \<lparr>result = [], currentState = ''URL: '' @ url, screenshots = [], completedActions = [],
      videoClicked = False, criticalErrorOccurred = False, errors = [],
      actionAttempts = Map.empty, pageErrorOccurred = False, taskCompleted = False,
      stepCount = 0, ops = tr\<rparr>"

text \<open>
  The loop and what follows it, from the state after the initial navigation. The first
  component is the trace of browser calls; \<open>Inl\<close> is an exception on its way to the
  \<^verbatim>\<open>catch\<close> of the run.
\<close>

definition loopAndFinish ::
  "variant \<Rightarrow> json_parser \<Rightarrow> run_env \<Rightarrow> run_state \<Rightarrow> browser_op list \<times> (exn + outcome)" where
  "loopAndFinish v P env s =
     (case snd (loop v P (r_iter env) s) of
        Done s' \<Rightarrow> (ops s', finish v (r_final env) s')
      | Returned s' out \<Rightarrow> (ops s', Inr out)
      | Thrown s' e \<Rightarrow> (ops s', Inl e))"

text \<open>
  The \<^verbatim>\<open>try\<close> block of the router (qa\_analysis.ts:132). The handlers are registered
  before the navigation. A null response makes \<^verbatim>\<open>response.ok()\<close> a type error; the
  early return needs a status of 400 or more.
\<close>

definition tryBlock_router ::
  "json_parser \<Rightarrow> string \<Rightarrow> run_env \<Rightarrow> browser_op list \<Rightarrow> browser_op list \<times> (exn + outcome)" where
  \<open>tryBlock_router P url env tr =
    (let s0 = call (Goto url) (initialState url tr) in
     case r_goto env of
       NavThrows e \<Rightarrow> (ops s0, Inl e)
     | NavTimeout \<Rightarrow> (ops s0, Inl (Error ''Navigation timeout of 60000 ms exceeded''))
     | NavNull \<Rightarrow> (ops s0, Inl (Error ''Cannot read properties of null (reading 'ok')''))
     | NavResponse statusCode \<Rightarrow>
         (let s1 = handleEvents Router (r_gotoEvents env) s0 in
          if \<not> ok statusCode then
            (let s2 = logLine (''Critical error: HTTP status '' @ string_of_nat statusCode @ nl) s1
             in if statusCode \<ge> 400
                then (ops s2, Inr \<lparr>o_result = result s2, o_screenshots = Some (screenshots s2),
                                   o_error = Some (''HTTP status '' @ string_of_nat statusCode)\<rparr>)
                else loopAndFinish Router P env s2)
          else loopAndFinish Router P env s1))\<close>

text \<open>
  The part of the \<^verbatim>\<open>try\<close> block of the service that follows the launch
  (qualityAnalysis.ts:293). Its local variables and handlers only exist after the
  navigation, so the events of the navigation are not seen.
\<close>

definition tryBlock_service ::
  "json_parser \<Rightarrow> string \<Rightarrow> run_env \<Rightarrow> browser_op list \<Rightarrow> browser_op list \<times> (exn + outcome)" where
  "tryBlock_service P url env tr =
    (let tr1 = tr @ [Goto url] in
     case r_goto env of
       NavThrows e \<Rightarrow> (tr1, Inl e)
     | NavTimeout \<Rightarrow>
         (tr1, Inr \<lparr>o_result = ''Navigation failed due to timeout'', o_screenshots = Some [],
                    o_error = Some ''Page load timed out''\<rparr>)
     | NavNull \<Rightarrow>
         (tr1, Inr \<lparr>o_result = ''Critical error: HTTP status undefined'', o_screenshots = Some [],
                    o_error = Some ''HTTP status undefined''\<rparr>)
     | NavResponse statusCode \<Rightarrow>
         if \<not> ok statusCode
         then (tr1, Inr \<lparr>o_result = ''Critical error: HTTP status '' @ string_of_nat statusCode,
                         o_screenshots = Some [],
                         o_error = Some (''HTTP status '' @ string_of_nat statusCode)\<rparr>)
         else loopAndFinish Service P env (initialState url tr1))"

text \<open>\<^verbatim>\<open>catch (error)\<close> of the run: the returned object has no \<^verbatim>\<open>screenshots\<close>.\<close>

definition catchBlock :: "browser_op list \<times> (exn + outcome) \<Rightarrow> browser_op list \<times> (exn + outcome)" where
  "catchBlock r =
     (case r of
        (tr, Inl error) \<Rightarrow>
          (tr, Inr \<lparr>o_result = ''An error occurred during the analysis'', o_screenshots = None,
                    o_error = Some (message error)\<rparr>)
      | (tr, Inr out) \<Rightarrow> (tr, Inr out))"

text \<open>\<^verbatim>\<open>finally { await browser.close(); }\<close>: an exception of the close replaces the result.\<close>

definition finallyClose ::
  "run_env \<Rightarrow> browser_op list \<times> (exn + outcome) \<Rightarrow> browser_op list \<times> (exn + outcome)" where
  "finallyClose env r =
     (case r_close env of
        Some e \<Rightarrow> (fst r @ [Close], Inl e)
      | None \<Rightarrow> (fst r @ [Close], snd r))"

text \<open>
  \<open>runQualityAnalysis\<close>. The first component is the trace of browser calls of the run,
  the second what the caller gets: \<open>Inl\<close> an exception, \<open>Inr\<close> the returned object.
  The router launches the browser and opens the page before its \<^verbatim>\<open>try\<close>; the service
  launches inside the \<^verbatim>\<open>try\<close> and closes only \<^verbatim>\<open>if (browser)\<close>.
\<close>

definition runQualityAnalysis ::
  "variant \<Rightarrow> json_parser \<Rightarrow> string \<Rightarrow> run_env \<Rightarrow> browser_op list \<times> (exn + outcome)" where
  "runQualityAnalysis v P url env =
    (case v of
       Router \<Rightarrow>
         (case r_launch env of
            Some e \<Rightarrow> ([], Inl e)
          | None \<Rightarrow>
              (case r_newPage env of
                 Some e \<Rightarrow> ([Launch], Inl e)
               | None \<Rightarrow>
                   finallyClose env (catchBlock (tryBlock_router P url env [Launch, NewPage]))))
     | Service \<Rightarrow>
         (case r_launch env of
            Some e \<Rightarrow> catchBlock ([], Inl e)
          | None \<Rightarrow>
              (case r_newPage env of
                 Some e \<Rightarrow> finallyClose env (catchBlock ([Launch], Inl e))
               | None \<Rightarrow>
                   finallyClose env (catchBlock (tryBlock_service P url env [Launch, NewPage])))))"

text \<open>
  Whether the initial navigation lets the run reach the loop, and the state in which
  the loop is then entered: in the router the handlers have seen the events of the
  navigation, and a status that is not a success but below 400 has been logged.
\<close>

definition entersLoop :: "variant \<Rightarrow> run_env \<Rightarrow> bool" where
  "entersLoop v env =
     (case r_goto env of
        NavResponse statusCode \<Rightarrow>
          (case v of
             Router \<Rightarrow> ok statusCode \<or> statusCode < 400
           | Service \<Rightarrow> ok statusCode)
      | NavThrows e \<Rightarrow> False
      | NavTimeout \<Rightarrow> False
      | NavNull \<Rightarrow> False)"

definition loopEntry :: "variant \<Rightarrow> string \<Rightarrow> run_env \<Rightarrow> browser_op list \<Rightarrow> run_state" where
  "loopEntry v url env tr =
     (case v of
        Service \<Rightarrow> initialState url (tr @ [Goto url])
      | Router \<Rightarrow>
          (let s1 = handleEvents Router (r_gotoEvents env) (call (Goto url) (initialState url tr))
           in case r_goto env of
                NavResponse statusCode \<Rightarrow>
                  if \<not> ok statusCode
                  then logLine (''Critical error: HTTP status '' @ string_of_nat statusCode @ nl) s1
                  else s1
              | NavThrows e \<Rightarrow> s1
              | NavTimeout \<Rightarrow> s1
              | NavNull \<Rightarrow> s1))"

subsection \<open>The loop without guards (root.ts:293)\<close>

text \<open>
  The \<open>runQualityAnalysis\<close> in \<^verbatim>\<open>root.ts\<close> has neither the repetition guard nor the
  guard on a completed navigation, registers no page handlers (so no event changes its
  state), and pushes the action
  name after every step that did not throw. Its \<open>generateNextStep\<close> is that of the
  service. It does not test the step for null: \<^verbatim>\<open>nextStep.action\<close> is then a type
  error, once inside the \<^verbatim>\<open>try\<close> and once after it.
\<close>

definition switchAction_plain :: "iter_env \<Rightarrow> proposal \<Rightarrow> run_state \<Rightarrow> run_state \<times> exn option" where
  "switchAction_plain env p s =
    (let sel = orElse (p_selector p) [] in
     if p_action p = ''NAVIGATE'' then
       (if truthy (p_url p)
        then attempt (Goto (orElse (p_url p) [])) env (\<lambda>t. t) s
               (\<lambda>r t. t\<lparr>currentState := ''URL: '' @ e_navUrl env\<rparr>)
        else (s, None))
     else if p_action p = ''CLICK'' then
       (if truthy (p_selector p) then (call (ClickWithRetry sel) s, None) else (s, None))
     else if p_action p = ''TYPE'' then
       (if truthy (p_selector p) \<and> truthy (p_text p)
        then attempt (TypeText sel (p_text p)) env (\<lambda>t. t) s (\<lambda>r t. t)
        else (s, None))
     else if p_action p = ''WAIT'' then
       (call (Wait (waitMs (p_ms p))) s, None)
     else if p_action p = ''SCREENSHOT'' then
       attempt TakeScreenshot env (\<lambda>t. t) s (\<lambda>r t. t\<lparr>screenshots := screenshots t @ [r]\<rparr>)
     else if p_action p = ''EXTRACT_LINKS'' then
       attempt ExtractLinks env (\<lambda>t. t) s (\<lambda>r. logLine (''Links: '' @ r @ nl))
     else if p_action p = ''SUMMARIZE'' then
       attempt SummarizePage env (\<lambda>t. t) s
         (\<lambda>r t. (logLine (''Summary: '' @ r @ nl) t)\<lparr>taskCompleted := True\<rparr>)
     else if p_action p = ''SCROLL'' then
       attempt (Scroll (orElse (p_direction p) ''down'')) env (\<lambda>t. t) s (\<lambda>r t. t)
     else if p_action p = ''HIGHLIGHT'' then
       (if truthy (p_selector p)
        then attempt (HighlightElements sel) env (\<lambda>t. t) s (\<lambda>r t. t)
        else (s, None))
     else (logLine (''Unknown action: '' @ p_action p @ nl) s, None))"

definition iteration_plain :: "json_parser \<Rightarrow> iter_env \<Rightarrow> run_state \<Rightarrow> iter_result" where
  \<open>iteration_plain P env s =
    (case e_pageContent env of
       Inl e \<Rightarrow> Throw s e
     | Inr pageContent \<Rightarrow>
         (case generateNextStep_service P (e_html env) (e_reply env) of
            None \<Rightarrow>
              Throw (logLine (''Error executing step: Cannot read properties of null (reading 'action')'' @ nl)
                       (logLine (''Step '' @ string_of_nat (stepCount s + 1) @ '': null'' @ nl) s))
                    (Error ''Cannot read properties of null (reading 'action')'')
          | Some nextStep \<Rightarrow>
              (let s1 = logLine (''Step '' @ string_of_nat (stepCount s + 1) @ '': ''
                                   @ p_json nextStep @ nl) s;
                   s2 = (case switchAction_plain env nextStep s1 of
                           (t, None) \<Rightarrow>
                             pushCompleted (p_action nextStep)
                               (logLine (''Step completed successfully'' @ nl) t)
                         | (t, Some stepError) \<Rightarrow>
                             logLine (''Error executing step: '' @ message stepError @ nl) t);
                   s3 = s2\<lparr>currentState := ''URL: '' @ e_url env @ nl @ ''Last action: ''
                                               @ p_action nextStep,
                            stepCount := stepCount s2 + 1\<rparr>
               in if \<not> taskCompleted s3
                  then (case e_completion env of
                          Inl e \<Rightarrow> Throw s3 e
                        | Inr (completed, reason) \<Rightarrow>
                            Continue (if completed
                                      then logLine (''Task completed: '' @ reason @ nl)
                                             (s3\<lparr>taskCompleted := True\<rparr>)
                                      else s3))
                  else Continue s3)))\<close>

subsection \<open>The oldest loop (part\_001:84)\<close>

text \<open>
  Its \<open>generateNextStep\<close> (part\_001:29) calls the model outside any \<^verbatim>\<open>try\<close> and gives
  null when the reply does not parse.
\<close>

definition generateNextStep_legacy :: "json_parser \<Rightarrow> api_response \<Rightarrow> exn + proposal option" where
  "generateNextStep_legacy P r =
     (case r of
        ApiThrows e \<Rightarrow> Inl e
      | NoChoices \<Rightarrow> Inr None
      | NoMessage \<Rightarrow> Inr None
      | Message None \<Rightarrow> Inr None
      | Message (Some c) \<Rightarrow> (case P c of None \<Rightarrow> Inr None | Some j \<Rightarrow> Inr j))"

text \<open>\<open>completedActions\<close> is a \<^verbatim>\<open>Set\<close> here: \<^verbatim>\<open>add\<close> keeps the first occurrence.\<close>

definition addCompleted :: "string \<Rightarrow> run_state \<Rightarrow> run_state" where
  "addCompleted a s = (if a \<in> set (completedActions s) then s else pushCompleted a s)"

definition switchAction_legacy :: "iter_env \<Rightarrow> proposal \<Rightarrow> run_state \<Rightarrow> run_state \<times> exn option" where
  "switchAction_legacy env p s =
    (let sel = orElse (p_selector p) []; h = during Router env AtAct in
     if p_action p = ''NAVIGATE'' then
       (if truthy (p_url p) \<and> ''NAVIGATE'' \<notin> set (completedActions s)
        then attempt (Goto (orElse (p_url p) [])) env h s
               (\<lambda>r t. addCompleted ''NAVIGATE'' (t\<lparr>currentState := ''URL: '' @ e_navUrl env\<rparr>))
        else (s, None))
     else if p_action p = ''CLICK'' then
       (if truthy (p_selector p)
        then attempt (ClickElement sel) env h s
               (\<lambda>r t. let t1 = addCompleted ''CLICK'' t
                       in if isVideoSelector sel then t1\<lparr>videoClicked := True\<rparr> else t1)
        else (s, None))
     else if p_action p = ''TYPE'' then
       (if truthy (p_selector p) \<and> truthy (p_text p) \<and> ''SEARCH'' \<notin> set (completedActions s)
        then (case e_exec env of
                Inl e \<Rightarrow> (h (call (TypeText sel (p_text p)) s), Some e)
              | Inr r \<Rightarrow>
                  (let s1 = h (call PressEnter (call (TypeText sel (p_text p)) s))
                   in case e_pressEnter env of
                        Some e \<Rightarrow> (s1, Some e)
                      | None \<Rightarrow> (addCompleted ''SEARCH'' (addCompleted ''TYPE'' s1), None)))
        else (s, None))
     else if p_action p = ''WAIT'' then
       (h (call (Wait (waitMs (p_ms p))) s), None)
     else if p_action p = ''SCREENSHOT'' then
       attempt TakeScreenshot env h s
         (\<lambda>r t. addCompleted ''SCREENSHOT'' (t\<lparr>screenshots := screenshots t @ [r]\<rparr>))
     else if p_action p = ''EXTRACT_LINKS'' then
       attempt ExtractLinks env h s
         (\<lambda>r t. addCompleted ''EXTRACT_LINKS'' (logLine (''Links: '' @ r @ nl) t))
     else if p_action p = ''SUMMARIZE'' then
       attempt SummarizePage env h s
         (\<lambda>r t. addCompleted ''SUMMARIZE'' (logLine (''Summary: '' @ r @ nl) t))
     else if p_action p = ''SCROLL'' then
       attempt (Scroll (orElse (p_direction p) ''down'')) env h s (\<lambda>r. addCompleted ''SCROLL'')
     else if p_action p = ''HIGHLIGHT'' then
       (if truthy (p_selector p)
        then attempt (HighlightElements sel) env h s (\<lambda>r. addCompleted ''HIGHLIGHT'')
        else (s, None))
     else (logLine (''Unknown action: '' @ p_action p @ nl) s, None))"

text \<open>
  After the step: \<open>currentState\<close> (without the completed actions), \<^verbatim>\<open>stepCount++\<close>,
  the video check and the completion check.
\<close>

definition afterStep_legacy :: "iter_env \<Rightarrow> proposal \<Rightarrow> run_state \<Rightarrow> iter_result" where
  "afterStep_legacy env p s =
    (let s1 = s\<lparr>currentState := ''URL: '' @ e_url env @ nl @ ''Last action: '' @ p_action p,
                 stepCount := stepCount s + 1\<rparr>
     in case videoCheck (during Router env AtVideo) env s1 of
          Inl (t, e) \<Rightarrow> Throw t e
        | Inr s2 \<Rightarrow>
            (let s3 = during Router env AtCheck s2
             in case e_completion env of
                  Inl e \<Rightarrow> Throw s3 e
                | Inr (completed, reason) \<Rightarrow>
                    Continue (if completed
                              then logLine (''Task completed: '' @ reason @ nl)
                                     (s3\<lparr>taskCompleted := True\<rparr>)
                              else s3)))"

text \<open>
  The body of the loop. The guard on repeated actions reads
  \<^verbatim>\<open>nextStep.params?.selector.includes('search')\<close>, a type error when \<^verbatim>\<open>params\<close> has no
  selector. The handlers are those of the router; a critical error leaves the loop by
  \<^verbatim>\<open>break\<close>. The \<^verbatim>\<open>catch\<close> of the step is that of the router.
\<close>

definition iteration_legacy :: "json_parser \<Rightarrow> iter_env \<Rightarrow> run_state \<Rightarrow> iter_result" where
  \<open>iteration_legacy P env s =
    (if criticalErrorOccurred s then
       Break (logLine (''Critical error occurred. Stopping further actions.'' @ nl) s)
     else
       (let s0 = during Router env AtDecide s in
        case generateNextStep_legacy P (e_reply env) of
          Inl e \<Rightarrow> Throw s0 e
        | Inr None \<Rightarrow>
            Break (logLine (''Step '' @ string_of_nat (stepCount s0 + 1)
                              @ '': Failed to generate next step'' @ nl) s0)
        | Inr (Some nextStep) \<Rightarrow>
            (let s1 = logLine (''Step '' @ string_of_nat (stepCount s0 + 1) @ '': ''
                                 @ p_json nextStep @ nl) s0;
                 seen = (p_action nextStep \<in> set (completedActions s1))
             in if seen \<and> p_action nextStep = ''TYPE'' \<and> p_params nextStep
                   \<and> p_selector nextStep = None
                then Throw s1 (Error ''Cannot read properties of undefined (reading 'includes')'')
                else if seen \<and> p_action nextStep = ''TYPE'' \<and> p_params nextStep
                        \<and> str_includes (orElse (p_selector nextStep) []) ''search''
                then Continue ((logLine (''Step '' @ string_of_nat (stepCount s0 + 1)
                                           @ '': Search already performed. Skipping.'' @ nl) s1)
                                 \<lparr>stepCount := stepCount s1 + 1\<rparr>)
                else if seen \<and> p_action nextStep = ''CLICK'' \<and> videoClicked s1
                then Continue ((logLine (''Step '' @ string_of_nat (stepCount s0 + 1)
                                           @ '': Video already clicked. Skipping.'' @ nl) s1)
                                 \<lparr>stepCount := stepCount s1 + 1\<rparr>)
                else
                  (case (case switchAction_legacy env nextStep s1 of
                           (t, None) \<Rightarrow> (logLine (''Step completed successfully'' @ nl) t, None)
                         | (t, Some stepError) \<Rightarrow> catchStepError Router env nextStep stepError t) of
                     (s3, Some e) \<Rightarrow> Throw s3 e
                   | (s3, None) \<Rightarrow> afterStep_legacy env nextStep s3))))\<close>

subsection \<open>The web task executor (part\_000)\<close>

text \<open>
  \<^verbatim>\<open>s.trim()\<close> removes the white space at both ends.
\<close>

definition trim :: "string \<Rightarrow> string" where
  "trim s = rev (dropLeading (map rev whiteSpace) (rev (dropLeading whiteSpace s)))"

definition toLowerChar :: "char \<Rightarrow> char" where
  "toLowerChar c =
     (case map_of (zip ''ABCDEFGHIJKLMNOPQRSTUVWXYZ'' ''abcdefghijklmnopqrstuvwxyz'') c of
        None \<Rightarrow> c
      | Some d \<Rightarrow> d)"

text \<open>
  \<^verbatim>\<open>s.toLowerCase()\<close>, as far as the ASCII characters of its result go: these come from
  the ASCII letters and from the Kelvin sign U+212A, which becomes \<^verbatim>\<open>k\<close>. Every other
  character is left as it is: its lower-case form has no ASCII character that could
  take part in a match with \<^verbatim>\<open>task completed\<close>, \<^verbatim>\<open>goal achieved\<close> or \<^verbatim>\<open>none\<close>, the
  only texts the result is compared with.
\<close>

fun toLowerCase :: "string \<Rightarrow> string" where
  "toLowerCase (a # b # c # cs) =
     (if a = CHR 0xE2 \<and> b = CHR 0x84 \<and> c = CHR 0xAA then CHR ''k'' # toLowerCase cs
      else toLowerChar a # toLowerCase (b # c # cs))"
| "toLowerCase [a, b] = [toLowerChar a, toLowerChar b]"
| "toLowerCase [a] = [toLowerChar a]"
| "toLowerCase [] = []"

text \<open>
  What \<^verbatim>\<open>fetch\<close> of the completions endpoint did: threw (also: the body has not the
  expected shape), answered with a status that is not ok (with its status text), or
  answered with a message content.
\<close>

datatype fetch_response =
    FetchThrows exn
  | FetchNotOk string
  | FetchOk string

text \<open>
  The step object of this executor, with the fields at top level; \<open>w_json\<close> is the
  text \<^verbatim>\<open>JSON.stringify(step, null, 2)\<close> gives for it. The parser is as above: \<open>None\<close>
  a syntax error, \<open>Some None\<close> null.
\<close>

record web_step =
  w_json :: string
  w_thought :: "string option"
  w_action :: "string option"
  w_ariaLabel :: "string option"
  w_text :: "string option"
  w_param :: "string option"

type_synonym web_parser = "string \<Rightarrow> web_step option option"

text \<open>\<open>generateNextStep\<close> (part\_000:204): a reply that does not parse is rethrown.\<close>

definition generateNextStep_social :: "web_parser \<Rightarrow> fetch_response \<Rightarrow> exn + web_step option" where
  "generateNextStep_social P r =
     (case r of
        FetchThrows e \<Rightarrow> Inl e
      | FetchNotOk statusText \<Rightarrow> Inl (Error (''OpenAI API request failed: '' @ statusText))
      | FetchOk content \<Rightarrow>
          (case P (trim content) of
             Some j \<Rightarrow> Inr j
           | None \<Rightarrow> Inl (Error ''Failed to get a valid JSON response. Please try again.'')))"

text \<open>
  \<open>generateInstructions\<close> (part\_000:57): up to three requests; \<open>F k\<close> is the answer to
  request \<open>k\<close>. Falling out of the \<^verbatim>\<open>while\<close> gives \<^verbatim>\<open>undefined\<close>, here \<open>Inr None\<close>.
\<close>

function generateInstructions ::
  "web_parser \<Rightarrow> (nat \<Rightarrow> fetch_response) \<Rightarrow> nat \<Rightarrow> exn + web_step option" where
  "generateInstructions P F attemptNo =
     (if attemptNo < 3
      then (case F attemptNo of
              FetchThrows e \<Rightarrow> Inl e
            | FetchNotOk statusText \<Rightarrow> Inl (Error (''OpenAI API request failed: '' @ statusText))
            | FetchOk content \<Rightarrow>
                (case P (trim content) of
                   Some j \<Rightarrow> Inr j
                 | None \<Rightarrow>
                     if attemptNo + 1 \<ge> 3
                     then Inl (Error ''Failed to get a valid JSON response after multiple attempts. Please try again.'')
                     else generateInstructions P F (attemptNo + 1)))
      else Inr None)"
  by pat_completeness auto
termination
  by (relation "measure (\<lambda>(P, F, attemptNo). 3 - attemptNo)") auto

declare generateInstructions.simps [simp del]

text \<open>
  The local variables of \<open>executeWebTask\<close>, and the trace of browser calls.
  \<open>ws_currentUrl\<close> is \<open>None\<close> when \<^verbatim>\<open>currentUrl\<close> is undefined.
\<close>

record web_state =
  ws_result :: string
  ws_currentUrl :: "string option"
  ws_taskCompleted :: bool
  ws_stepCount :: nat
  ws_ops :: "browser_op list"

text \<open>
  What one iteration of \<open>executeWebTask\<close> reads: the model's reply, the first helper
  call of the \<^verbatim>\<open>case\<close> (its exception or what it returned), the three further browser
  calls of \<open>CLICKBTN\<close>, and \<^verbatim>\<open>page.url()\<close>.
\<close>

record web_env =
  we_reply :: fetch_response
  we_exec :: "exn + string"
  we_waitVideo :: "exn option"
  we_isPlaying :: "exn + bool"
  we_playClick :: "exn option"
  we_url :: string

datatype web_iter =
    WContinue web_state
  | WBreak web_state
  | WThrow web_state exn

text \<open>
  The text of a property that may be missing, where the code uses it without a test:
  a missing one reads \<^verbatim>\<open>undefined\<close>, a present one is used as it is, empty or not.
\<close>

definition textOf :: "string option \<Rightarrow> string" where
  "textOf x = (case x of None \<Rightarrow> ''undefined'' | Some t \<Rightarrow> t)"

definition wlog :: "string \<Rightarrow> web_state \<Rightarrow> web_state" where
  "wlog l s = s\<lparr>ws_result := ws_result s @ l\<rparr>"

definition wcall :: "browser_op \<Rightarrow> web_state \<Rightarrow> web_state" where
  "wcall op s = s\<lparr>ws_ops := ws_ops s @ [op]\<rparr>"

definition wattempt ::
  "browser_op \<Rightarrow> web_env \<Rightarrow> web_state \<Rightarrow> (string \<Rightarrow> web_state \<Rightarrow> web_state)
     \<Rightarrow> web_state \<times> exn option" where
  "wattempt op env s k =
     (case we_exec env of
        Inl e \<Rightarrow> (wcall op s, Some e)
      | Inr r \<Rightarrow> (k r (wcall op s), None))"

text \<open>
  The \<^verbatim>\<open>switch\<close> of \<open>executeWebTask\<close> for a known action: the state, and the exception if
  one was thrown. (The unknown action, which \<^verbatim>\<open>continue\<close>s, is in \<open>webIteration\<close>.)
\<close>

definition webSwitch :: "web_env \<Rightarrow> web_step \<Rightarrow> string \<Rightarrow> web_state \<Rightarrow> web_state \<times> exn option" where
  "webSwitch env step a s =
    (if a = ''CLICKBTN'' then
       (case we_exec env of
          Inl e \<Rightarrow> (wcall (ClickByLabel (w_ariaLabel step)) s, Some e)
        | Inr r \<Rightarrow>
            (let s1 = wcall WaitForVideo (wcall (ClickByLabel (w_ariaLabel step)) s)
             in case we_waitVideo env of
                  Some e \<Rightarrow> (s1, Some e)
                | None \<Rightarrow>
                    (case we_isPlaying env of
                       Inl e \<Rightarrow> (s1, Some e)
                     | Inr isPlaying \<Rightarrow>
                         if isPlaying then (s1, None)
                         else (wcall ClickPlayButton s1, we_playClick env))))
     else if a = ''TYPETEXT'' then wattempt (TypeIntoSearch (w_text step)) env s (\<lambda>r t. t)
     else if a = ''WAITLOAD'' then wattempt WaitForNavigation env s (\<lambda>r t. t)
     else if a = ''NAVIGATEURL'' then
       (if truthy (w_param step)
        then wattempt (Goto (orElse (w_param step) [])) env s
               (\<lambda>r t. wlog (''Navigated to: '' @ orElse (w_param step) [] @ nl)
                          (t\<lparr>ws_currentUrl := w_param step\<rparr>))
        else (s, None))
     else if a = ''SCROLL'' then wattempt (Scroll (textOf (w_param step))) env s (\<lambda>r t. t)
     else if a = ''HIGHLIGHT'' then
       wattempt (HighlightElements (textOf (w_ariaLabel step))) env s (\<lambda>r t. t)
     else if a = ''SCREENSHOT'' then
       wattempt TakeScreenshot env s (\<lambda>r. wlog (''Screenshot saved as screenshot.png'' @ nl))
     else if a = ''SUMMARIZE_PAGE'' then
       wattempt SummarizePage env s (\<lambda>r. wlog (''Page summary: '' @ r @ nl))
     else wattempt ExtractLinks env s (\<lambda>r. wlog (''Extracted links: '' @ r @ nl)))"

definition webActions :: "string list" where
  "webActions = [''CLICKBTN'', ''TYPETEXT'', ''WAITLOAD'', ''NAVIGATEURL'', ''SCROLL'',
                 ''HIGHLIGHT'', ''SCREENSHOT'', ''SUMMARIZE_PAGE'', ''EXTRACT_LINKS'']"

text \<open>
  The body of the \<^verbatim>\<open>while\<close> of \<open>executeWebTask\<close> (part\_000:118). A null step, a step
  without \<^verbatim>\<open>thought\<close>, and a step without \<^verbatim>\<open>action\<close> whose thought does not announce
  completion are type errors. An unknown action \<^verbatim>\<open>continue\<close>s without
  \<^verbatim>\<open>stepCount++\<close>.
\<close>

definition webIteration :: "web_parser \<Rightarrow> web_env \<Rightarrow> web_state \<Rightarrow> web_iter" where
  \<open>webIteration P env s =
    (case generateNextStep_social P (we_reply env) of
       Inl e \<Rightarrow> WThrow s e
     | Inr None \<Rightarrow>
         WThrow (wlog (''Next step:'' @ nl @ ''null'' @ nl @ nl) s)
           (Error ''Cannot read properties of null (reading 'thought')'')
     | Inr (Some nextStep) \<Rightarrow>
         (let s1 = wlog (''Next step:'' @ nl @ w_json nextStep @ nl @ nl) s in
          case w_thought nextStep of
            None \<Rightarrow> WThrow s1 (Error ''Cannot read properties of undefined (reading 'toLowerCase')'')
          | Some thought \<Rightarrow>
              if str_includes (toLowerCase thought) ''task completed''
                 \<or> str_includes (toLowerCase thought) ''goal achieved''
              then WBreak (wlog (''Task completed successfully.'' @ nl)
                             (s1\<lparr>ws_taskCompleted := True\<rparr>))
              else
                (case w_action nextStep of
                   None \<Rightarrow>
                     WThrow s1 (Error ''Cannot read properties of undefined (reading 'toLowerCase')'')
                 | Some a \<Rightarrow>
                     if toLowerCase a = ''none''
                     then WBreak (wlog (''Task completed successfully.'' @ nl)
                                    (s1\<lparr>ws_taskCompleted := True\<rparr>))
                     else if a \<notin> set webActions
                     then WContinue (wlog (''Unknown action: '' @ a @ nl) s1)
                     else
                       (let s3 = (case webSwitch env nextStep a s1 of
                                    (t, None) \<Rightarrow>
                                      (wlog (''Step completed successfully'' @ nl) t)
                                        \<lparr>ws_currentUrl := Some (we_url env)\<rparr>
                                  | (t, Some stepError) \<Rightarrow>
                                      wlog (''Error executing step: '' @ message stepError @ nl) t)
                        in WContinue (s3\<lparr>ws_stepCount := ws_stepCount s3 + 1\<rparr>)))))\<close>

text \<open>
  \<^verbatim>\<open>while (!taskCompleted && stepCount < maxSteps)\<close> with \<open>maxSteps = 20\<close>. An unknown
  action does not advance the step counter, so the number of iterations has no bound:
  the function takes the number of iterations it may run, and \<open>None\<close> says that this
  was not enough. \<open>E i\<close> is what the outside answers in iteration \<open>i\<close>.
\<close>

fun webLoop ::
  "nat \<Rightarrow> web_parser \<Rightarrow> (nat \<Rightarrow> web_env) \<Rightarrow> nat \<Rightarrow> web_state \<Rightarrow> (web_state \<times> exn option) option" where
  "webLoop 0 P E i s =
     (if \<not> ws_taskCompleted s \<and> ws_stepCount s < 20 then None else Some (s, None))"
| "webLoop (Suc fuel) P E i s =
     (if \<not> ws_taskCompleted s \<and> ws_stepCount s < 20
      then (case webIteration P (E i) s of
              WContinue s' \<Rightarrow> webLoop fuel P E (Suc i) s'
            | WBreak s' \<Rightarrow> Some (s', None)
            | WThrow s' e \<Rightarrow> Some (s', Some e))
      else Some (s, None))"

record web_run_env =
  wr_launch :: "exn option"
  wr_newPage :: "exn option"
  wr_instructions :: "nat \<Rightarrow> fetch_response"
  wr_goto :: "exn option"
  wr_iter :: "nat \<Rightarrow> web_env"

text \<open>The object \<open>executeWebTask\<close> returns: \<^verbatim>\<open>{ result, livePageUrl }\<close>.\<close>

record web_outcome =
  wo_result :: string
  wo_livePageUrl :: "string option"

text \<open>
  The \<^verbatim>\<open>try\<close> block of \<open>executeWebTask\<close> (part\_000:106): the state when it is left and
  the exception that left it.
\<close>

definition webTry ::
  "nat \<Rightarrow> web_parser \<Rightarrow> web_run_env \<Rightarrow> web_state \<Rightarrow> (web_state \<times> exn option) option" where
  \<open>webTry fuel P env s =
    (case generateInstructions P (wr_instructions env) 0 of
       Inl e \<Rightarrow> Some (s, Some e)
     | Inr None \<Rightarrow>
         Some (wlog (''Initial step:'' @ nl @ ''null'' @ nl @ nl) s,
               Some (Error ''Cannot read properties of null (reading 'param')''))
     | Inr (Some initialStep) \<Rightarrow>
         (let s1 = wcall (Goto (textOf (w_param initialStep)))
                     (wlog (''Initial step:'' @ nl @ w_json initialStep @ nl @ nl) s)
          in case wr_goto env of
               Some e \<Rightarrow> Some (s1, Some e)
             | None \<Rightarrow>
                 (let s2 = wlog (''Navigated to: '' @ textOf (w_param initialStep) @ nl)
                             (s1\<lparr>ws_currentUrl := w_param initialStep\<rparr>)
                  in case webLoop fuel P (wr_iter env) 0 s2 of
                       None \<Rightarrow> None
                     | Some (s3, Some e) \<Rightarrow> Some (s3, Some e)
                     | Some (s3, None) \<Rightarrow>
                         Some (wlog (''Final URL: '' @ textOf (ws_currentUrl s3) @ nl) s3, None))))\<close>

text \<open>
  \<open>executeWebTask\<close> (part\_000:100). The browser is launched before the \<^verbatim>\<open>try\<close>; the
  \<^verbatim>\<open>catch\<close> appends the error to the transcript; the \<^verbatim>\<open>finally\<close> block is empty (its
  \<^verbatim>\<open>browser.close()\<close> is commented out). The result is \<open>None\<close> when the loop did not end
  within \<open>fuel\<close> iterations; otherwise the trace of browser calls and what the caller
  gets.
\<close>

definition executeWebTask ::
  "nat \<Rightarrow> web_parser \<Rightarrow> web_run_env \<Rightarrow> (browser_op list \<times> (exn + web_outcome)) option" where
  "executeWebTask fuel P env =
    (case wr_launch env of
       Some e \<Rightarrow> Some ([], Inl e)
     | None \<Rightarrow>
         (case wr_newPage env of
            Some e \<Rightarrow> Some ([Launch], Inl e)
          | None \<Rightarrow>
              (case webTry fuel P env
                      \<lparr>ws_result = [], ws_currentUrl = Some [], ws_taskCompleted = False,
                       ws_stepCount = 0, ws_ops = [Launch, NewPage]\<rparr> of
                 None \<Rightarrow> None
               | Some (s, thrown) \<Rightarrow>
                   (let s' = (case thrown of
                                None \<Rightarrow> s
                              | Some error \<Rightarrow> wlog (''Error: '' @ message error @ nl) s)
                    in Some (ws_ops s',
                             Inr \<lparr>wo_result = ws_result s', wo_livePageUrl = ws_currentUrl s'\<rparr>)))))"

subsection \<open>Predicates of the properties\<close>

text \<open>Every recorded attempt count is at most 3.\<close>

definition attemptsBounded :: "run_state \<Rightarrow> bool" where
  "attemptsBounded s = (\<forall>k. case actionAttempts s k of None \<Rightarrow> True | Some n \<Rightarrow> n \<le> 3)"

text \<open>
  The recorded count of a key (0 when there is none), and whether the iteration that
  starts in \<open>s\<close> is given a proposal with action key \<open>key\<close> and makes a browser call.
\<close>

definition attemptCount :: "run_state \<Rightarrow> string \<Rightarrow> nat" where
  "attemptCount s k = (case actionAttempts s k of None \<Rightarrow> 0 | Some n \<Rightarrow> n)"

definition callsExecutorFor ::
  "variant \<Rightarrow> json_parser \<Rightarrow> (nat \<Rightarrow> iter_env) \<Rightarrow> string \<Rightarrow> run_state \<Rightarrow> bool" where
  "callsExecutorFor v P E key s =
     (case generateNextStep v P (E (stepCount s)) of
        None \<Rightarrow> False
      | Some p \<Rightarrow> actionKey p = key
                   \<and> ops (state_of (iteration v P (E (stepCount s)) s)) \<noteq> ops s)"

text \<open>
  \<open>e\<close> is one of the exceptions that the calls of an iteration outside
  \<open>generateNextStep\<close> and outside the \<^verbatim>\<open>try\<close> of the step raise: the read of the page,
  the search for an alternative selector, the call on it, the video check, the
  completion check.
\<close>

definition raises :: "iter_env \<Rightarrow> exn \<Rightarrow> bool" where
  "raises env e =
     (e_pageContent env = Inl e
      \<or> (case e_dom env of Inl e' \<Rightarrow> e' = e | Inr present \<Rightarrow> False)
      \<or> e_altExec env = Some e
      \<or> e_playing env = Inl e
      \<or> e_completion env = Inl e)"

text \<open>The session has not been closed.\<close>

definition noClose :: "run_state \<Rightarrow> bool" where
  "noClose s = (Close \<notin> set (ops s))"

subsection \<open>Example inputs\<close>

text \<open>
  Proposals to click \<^verbatim>\<open>#go\<close>, to wait, to summarize and to navigate (to a page of the
  site, and to \<^verbatim>\<open>about:blank\<close>), and a parser that decodes the replies used in the
  examples as \<^verbatim>\<open>JSON.parse\<close> does and rejects every other text.
\<close>

definition clickStep :: proposal where
  \<open>clickStep =
     \<lparr>p_json = ''{"thought":"open it","action":"CLICK","params":{"selector":"#go"}}'',
      p_thought = ''open it'', p_action = ''CLICK'', p_params = True,
      p_selector = Some ''#go'', p_url = None, p_text = None, p_ms = None,
      p_direction = None, p_value = None\<rparr>\<close>

definition waitStep :: proposal where
  \<open>waitStep =
     \<lparr>p_json = ''{"thought":"let it load","action":"WAIT","params":{"ms":500}}'',
      p_thought = ''let it load'', p_action = ''WAIT'', p_params = True,
      p_selector = None, p_url = None, p_text = None, p_ms = Some 500,
      p_direction = None, p_value = None\<rparr>\<close>

definition summarizeStep :: proposal where
  \<open>summarizeStep =
     \<lparr>p_json = ''{"thought":"done","action":"SUMMARIZE","params":{}}'',
      p_thought = ''done'', p_action = ''SUMMARIZE'', p_params = True,
      p_selector = None, p_url = None, p_text = None, p_ms = None,
      p_direction = None, p_value = None\<rparr>\<close>

definition navigateStep :: proposal where
  \<open>navigateStep =
     \<lparr>p_json = ''{"thought":"go on","action":"NAVIGATE","params":{"url":"https://example.com/next"}}'',
      p_thought = ''go on'', p_action = ''NAVIGATE'', p_params = True,
      p_selector = None, p_url = Some ''https://example.com/next'', p_text = None,
      p_ms = None, p_direction = None, p_value = None\<rparr>\<close>

definition blankStep :: proposal where
  \<open>blankStep =
     \<lparr>p_json = ''{"thought":"start over","action":"NAVIGATE","params":{"url":"about:blank"}}'',
      p_thought = ''start over'', p_action = ''NAVIGATE'', p_params = True,
      p_selector = None, p_url = Some ''about:blank'', p_text = None,
      p_ms = None, p_direction = None, p_value = None\<rparr>\<close>

definition exampleParser :: json_parser where
  "exampleParser c =
     (if c = p_json clickStep then Some (Some clickStep)
      else if c = p_json waitStep then Some (Some waitStep)
      else if c = p_json summarizeStep then Some (Some summarizeStep)
      else if c = p_json navigateStep then Some (Some navigateStep)
      else if c = p_json blankStep then Some (Some blankStep)
      else if c = ''null'' then Some None
      else None)"

text \<open>
  An iteration in which nothing fails and no event fires, given the reply \<open>c\<close>; one in
  which the page is summarized; and an environment in which the first iteration waits
  and the page read of the second one throws.
\<close>

definition quietEnv :: "string \<Rightarrow> iter_env" where
  "quietEnv c =
     \<lparr>e_pageContent = Inr ''page'', e_html = Inr ''<html></html>'',
      e_reply = Message (Some c), e_exec = Inr [], e_navUrl = ''https://example.com/next'',
      e_dom = Inr (\<lambda>sel. False), e_altExec = None, e_pressEnter = None, e_url = ''https://example.com/'',
      e_playing = Inr False, e_completion = Inr (False, ''not yet''), e_events = (\<lambda>a. [])\<rparr>"

definition summaryEnv :: iter_env where
  "summaryEnv = (quietEnv (p_json summarizeStep))\<lparr>e_exec := Inr ''A landing page.''\<rparr>"

definition waitThenCrash :: "nat \<Rightarrow> iter_env" where
  "waitThenCrash k =
     (if k = 0 then quietEnv (p_json waitStep)
      else (quietEnv (p_json waitStep))
             \<lparr>e_pageContent := Inl (Error ''Execution context was destroyed'')\<rparr>)"


text \<open>A final part and a run in which nothing fails.\<close>

definition quietFinal :: final_env where
  "quietFinal = \<lparr>f_errorSummary = Inr ''none'', f_errorEvents = [],
                  f_testSummary = Inr ''passed'', f_testEvents = []\<rparr>"

definition quietRun :: "nav_result \<Rightarrow> (nat \<Rightarrow> iter_env) \<Rightarrow> run_env" where
  "quietRun nav E =
     \<lparr>r_launch = None, r_newPage = None, r_goto = nav, r_gotoEvents = [],
      r_iter = E, r_final = quietFinal, r_close = None\<rparr>"

text \<open>A run in which the browser cannot be launched.\<close>

definition noBrowserRun :: run_env where
  "noBrowserRun =
     (quietRun (NavResponse 200) (\<lambda>k. quietEnv (p_json waitStep)))
       \<lparr>r_launch := Some (Error ''Failed to launch the browser process'')\<rparr>"

text \<open>
  Run states: the click on \<^verbatim>\<open>#go\<close> has been attempted three times; one navigation has
  been completed; the handler of \<^verbatim>\<open>requestfailed\<close> has seen a refused connection.
\<close>

definition thriceClicked :: run_state where
  "thriceClicked =
     (initialState ''https://example.com/'' [Launch, NewPage, Goto ''https://example.com/''])
       \<lparr>actionAttempts := [''CLICK_#go'' \<mapsto> 3], stepCount := 3\<rparr>"

definition navigatedState :: run_state where
  "navigatedState =
     (initialState ''https://example.com/''
        [Launch, NewPage, Goto ''https://example.com/'', Goto ''https://example.com/next''])
       \<lparr>completedActions := [''NAVIGATE''], actionAttempts := [''NAVIGATE_'' \<mapsto> 1],
        stepCount := 1\<rparr>"


text \<open>
  For the web task executor: a parser for the two replies of the example, and a run in
  which the first step announces that the goal is achieved.
\<close>

definition exampleWebParser :: web_parser where
  \<open>exampleWebParser c =
     (if c = ''{"thought":"search for it","param":"https://www.google.com/search?q=cats"}''
      then Some (Some \<lparr>w_json = ''{'' @ nl @ ''  "thought": "search for it",'' @ nl
                                 @ ''  "param": "https://www.google.com/search?q=cats"'' @ nl @ ''}'',
                        w_thought = Some ''search for it'', w_action = None,
                        w_ariaLabel = None, w_text = None,
                        w_param = Some ''https://www.google.com/search?q=cats''\<rparr>)
      else if c = ''{"thought":"Goal achieved","action":"NONE"}''
      then Some (Some \<lparr>w_json = ''{'' @ nl @ ''  "thought": "Goal achieved",'' @ nl
                                 @ ''  "action": "NONE"'' @ nl @ ''}'',
                        w_thought = Some ''Goal achieved'', w_action = Some ''NONE'',
                        w_ariaLabel = None, w_text = None, w_param = None\<rparr>)
      else if c = ''null'' then Some None
      else None)\<close>

definition webRunDone :: web_run_env where
  \<open>webRunDone =
     \<lparr>wr_launch = None, wr_newPage = None,
      wr_instructions =
        (\<lambda>k. FetchOk ''{"thought":"search for it","param":"https://www.google.com/search?q=cats"}''),
      wr_goto = None,
      wr_iter =
        (\<lambda>i. \<lparr>we_reply = FetchOk ''{"thought":"Goal achieved","action":"NONE"}'',
               we_exec = Inr [], we_waitVideo = None, we_isPlaying = Inr True,
               we_playClick = None, we_url = ''https://www.google.com/search?q=cats''\<rparr>)\<rparr>\<close>

section \<open>Properties\<close>

subsection \<open>Auxiliary facts\<close>

lemma loop_stop:
  "taskCompleted s \<or> \<not> stepCount s < maxSteps v \<Longrightarrow> loop v P E s = ([], Done s)"
  by (subst loop.simps) auto

lemma loop_step:
  assumes "\<not> taskCompleted s" "stepCount s < maxSteps v"
  shows "loop v P E s =
           (case iteration v P (E (stepCount s)) s of
              Continue s' \<Rightarrow> (s # fst (loop v P E s'), snd (loop v P E s'))
            | Break s' \<Rightarrow> ([s], Done s')
            | Return s' out \<Rightarrow> ([s], Returned s' out)
            | Throw s' e \<Rightarrow> ([s], Thrown s' e))"
  using assms by (subst loop.simps) (simp split: iter_result.splits prod.splits)

lemma loop_invariant:
  assumes step: "\<And>env s. I s \<Longrightarrow> \<not> taskCompleted s \<Longrightarrow> stepCount s < maxSteps v
                    \<Longrightarrow> I (state_of (iteration v P env s))"
    and init: "I s"
  shows "list_all I (fst (loop v P E s)) \<and> I (exit_state (snd (loop v P E s)))"
  using step init
proof (induction v P E s rule: loop.induct)
  case (1 v P E s)
  show ?case
  proof (cases "\<not> taskCompleted s \<and> stepCount s < maxSteps v")
    case False
    then have "loop v P E s = ([], Done s)" by (intro loop_stop) auto
    then show ?thesis using "1.prems"(2) by (simp add: exit_state_def)
  next
    case True
    have I': "I (state_of (iteration v P (E (stepCount s)) s))"
      using "1.prems" True by blast
    have unfold: "loop v P E s =
           (case iteration v P (E (stepCount s)) s of
              Continue s' \<Rightarrow> (s # fst (loop v P E s'), snd (loop v P E s'))
            | Break s' \<Rightarrow> ([s], Done s')
            | Return s' out \<Rightarrow> ([s], Returned s' out)
            | Throw s' e \<Rightarrow> ([s], Thrown s' e))"
      using True by (intro loop_step) auto
    show ?thesis
    proof (cases "iteration v P (E (stepCount s)) s")
      case (Continue s')
      then have "I s'" using I' by (simp add: state_of_def)
      then have "list_all I (fst (loop v P E s')) \<and> I (exit_state (snd (loop v P E s')))"
        using "1.IH" [OF True Continue] "1.prems"(1) by blast
      then show ?thesis using unfold Continue "1.prems"(2) by simp
    next
      case (Break s')
      then show ?thesis using unfold I' "1.prems"(2)
        by (simp add: exit_state_def state_of_def)
    next
      case (Return s' out)
      then show ?thesis using unfold I' "1.prems"(2)
        by (simp add: exit_state_def state_of_def)
    next
      case (Throw s' e)
      then show ?thesis using unfold I' "1.prems"(2)
        by (simp add: exit_state_def state_of_def)
    qed
  qed
qed

lemma handleEvent_result:
  "\<exists>rest. result (handleEvent v ev s) = result s @ rest"
  by (simp add: handleEvent_def onConsole_def onRequestFailed_def onPageError_def
        logLine_def Let_def split: page_event.splits option.splits variant.splits)

lemma handleEvents_result:
  "\<exists>rest. result (handleEvents v evs s) = result s @ rest"
  unfolding handleEvents_def
proof (induction evs arbitrary: s)
  case Nil
  then show ?case by simp
next
  case (Cons ev evs)
  obtain r1 where r1: "result (handleEvent v ev s) = result s @ r1"
    using handleEvent_result by blast
  obtain r2 where "result (fold (handleEvent v) evs (handleEvent v ev s)) = result (handleEvent v ev s) @ r2"
    using Cons.IH by blast
  then show ?case using r1 by simp
qed

lemma afterStep_frame:
  "actionAttempts (state_of (afterStep v env p s)) = actionAttempts s"
  "ops (state_of (afterStep v env p s)) = ops s"
  "completedActions (state_of (afterStep v env p s)) = completedActions s"
  "screenshots (state_of (afterStep v env p s)) = screenshots s"
  by (auto simp: afterStep_def videoCheck_def state_of_def Let_def logLine_def during_frame
        split: if_splits sum.splits variant.splits prod.splits)

lemma recordAttempt_bounded:
  assumes "\<forall>k. case m k of None \<Rightarrow> True | Some n \<Rightarrow> n \<le> 3" "\<not> repeated m key"
  shows "case recordAttempt m key k of None \<Rightarrow> True | Some n \<Rightarrow> n \<le> 3"
proof (cases "k = key")
  case True
  then show ?thesis using assms
    by (auto simp: recordAttempt_def repeated_def split: option.splits)
next
  case False
  then show ?thesis using assms(1) [rule_format, of k]
    by (auto simp: recordAttempt_def split: option.splits)
qed

lemma iteration_attempts:
  "actionAttempts (state_of (iteration v P env s)) = actionAttempts s
   \<or> (\<exists>p. generateNextStep v P env = Some p \<and> \<not> repeated (actionAttempts s) (actionKey p)
        \<and> actionAttempts (state_of (iteration v P env s))
            = recordAttempt (actionAttempts s) (actionKey p))"
proof (cases rule: iteration_cases [where s = s and env = env and v = v and P = P])
  case critical
  then show ?thesis by (simp add: iteration_def Let_def state_of_def logLine_def)
next
  case (read_throws e)
  then show ?thesis by (simp add: state_of_def during_frame)
next
  case (no_step c)
  then show ?thesis using iteration_no_step [OF no_step]
    by (simp add: state_of_def logLine_def afterReads_frame)
next
  case (skipped c p)
  then show ?thesis using iteration_skipped [OF skipped]
    by (simp add: state_of_def afterReads_frame)
next
  case (executed c p)
  obtain s3 x where ts: "tryStep v env p (beforeTry p (afterReads v env s)) = (s3, x)"
    by (cases "tryStep v env p (beforeTry p (afterReads v env s))")
  have "actionAttempts s3 = actionAttempts (beforeTry p (afterReads v env s))"
    using tryStep_frame(2) [of v env p "beforeTry p (afterReads v env s)"] ts by simp
  then have s3: "actionAttempts s3 = recordAttempt (actionAttempts s) (actionKey p)"
    by (simp add: beforeTry_frame afterReads_frame)
  have "actionAttempts (state_of (iteration v P env s)) = actionAttempts s3"
    using ts iteration_executed [OF executed]
    by (cases x) (simp_all add: afterStep_frame, simp add: state_of_def)
  then show ?thesis using s3 executed by auto
qed

lemma iteration_bounded:
  assumes "attemptsBounded s"
  shows "attemptsBounded (state_of (iteration v P env s))"
  using iteration_attempts [of v P env s] assms recordAttempt_bounded
  unfolding attemptsBounded_def by (metis)


lemma inheritedKey_unknown_action:
  assumes "inheritedKey (actionKey p)"
  shows "p_action p \<notin> set [''NAVIGATE'', ''CLICK'', ''TYPE'', ''WAIT'', ''SCREENSHOT'',
           ''EXTRACT_LINKS'', ''SUMMARIZE'', ''SCROLL'', ''HIGHLIGHT'', ''SELECT'']"
  using assms by (auto simp: inheritedKey_def actionKey_def)

lemma tryStep_unknown_action:
  assumes "p_action p \<notin> set [''NAVIGATE'', ''CLICK'', ''TYPE'', ''WAIT'', ''SCREENSHOT'',
           ''EXTRACT_LINKS'', ''SUMMARIZE'', ''SCROLL'', ''HIGHLIGHT'', ''SELECT'']"
  shows "tryStep v env p s =
           (logLine (''Step completed successfully'' @ nl)
              (logLine (''Unknown action: '' @ p_action p @ nl) s), None)"
  using assms by (simp add: tryStep_def switchAction_def)

lemma iteration_executed_attempts:
  assumes "\<not> criticalErrorOccurred s" "e_pageContent env = Inr c"
    "generateNextStep v P env = Some p" "\<not> repeated (actionAttempts s) (actionKey p)"
  shows "actionAttempts (state_of (iteration v P env s))
           = recordAttempt (actionAttempts s) (actionKey p)"
proof -
  obtain s3 x where ts: "tryStep v env p (beforeTry p (afterReads v env s)) = (s3, x)"
    by (cases "tryStep v env p (beforeTry p (afterReads v env s))")
  have "actionAttempts s3 = actionAttempts (beforeTry p (afterReads v env s))"
    using tryStep_frame(2) [of v env p "beforeTry p (afterReads v env s)"] ts by simp
  then have s3: "actionAttempts s3 = recordAttempt (actionAttempts s) (actionKey p)"
    by (simp add: beforeTry_frame afterReads_frame)
  have "actionAttempts (state_of (iteration v P env s)) = actionAttempts s3"
    using ts iteration_executed [OF assms]
    by (cases x) (simp_all add: afterStep_frame, simp add: state_of_def)
  then show ?thesis using s3 by simp
qed

lemma iteration_ops_changed:
  assumes "ops (state_of (iteration v P env s)) \<noteq> ops s"
  obtains c p where "\<not> criticalErrorOccurred s" "e_pageContent env = Inr c"
    "generateNextStep v P env = Some p" "\<not> repeated (actionAttempts s) (actionKey p)"
    "\<not> inheritedKey (actionKey p)"
proof (cases rule: iteration_cases [where s = s and env = env and v = v and P = P])
  case critical
  then show ?thesis using assms by (simp add: iteration_def Let_def state_of_def logLine_def)
next
  case (read_throws e)
  then show ?thesis using assms by (simp add: state_of_def during_frame)
next
  case (no_step c)
  then show ?thesis using assms iteration_no_step [OF no_step]
    by (simp add: state_of_def logLine_def afterReads_frame)
next
  case (skipped c p)
  then show ?thesis using assms iteration_skipped [OF skipped]
    by (simp add: state_of_def afterReads_frame)
next
  case (executed c p)
  have "\<not> inheritedKey (actionKey p)"
  proof
    assume "inheritedKey (actionKey p)"
    then have "tryStep v env p (beforeTry p (afterReads v env s)) =
           (logLine (''Step completed successfully'' @ nl)
              (logLine (''Unknown action: '' @ p_action p @ nl) (beforeTry p (afterReads v env s))), None)"
      by (intro tryStep_unknown_action inheritedKey_unknown_action)
    then have "ops (state_of (iteration v P env s)) = ops s"
      using iteration_executed [OF executed]
      by (simp add: afterStep_frame logLine_def beforeTry_frame afterReads_frame)
    then show False using assms by simp
  qed
  then show ?thesis using executed that by blast
qed

lemma attemptCount_recordAttempt:
  "\<not> inheritedKey k \<Longrightarrow>
     (case recordAttempt m k k of None \<Rightarrow> 0 | Some n \<Rightarrow> n) = Suc (case m k of None \<Rightarrow> 0 | Some n \<Rightarrow> n)"
  "(case m k' of None \<Rightarrow> 0 | Some n \<Rightarrow> n) \<le> (case recordAttempt m k k' of None \<Rightarrow> 0 | Some n \<Rightarrow> n)"
  by (auto simp: recordAttempt_def split: option.splits)

lemma attemptCount_mono:
  "attemptCount s k \<le> attemptCount (state_of (iteration v P env s)) k"
  using iteration_attempts [of v P env s] attemptCount_recordAttempt(2)
  by (auto simp: attemptCount_def)

lemma callsExecutorFor_count:
  assumes "callsExecutorFor v P E key s"
  shows "attemptCount (state_of (iteration v P (E (stepCount s)) s)) key = Suc (attemptCount s key)"
    and "attemptCount s key < 3"
proof -
  obtain p where p: "generateNextStep v P (E (stepCount s)) = Some p" "actionKey p = key"
    and ch: "ops (state_of (iteration v P (E (stepCount s)) s)) \<noteq> ops s"
    using assms by (auto simp: callsExecutorFor_def split: option.splits)
  from ch obtain c p' where ex: "\<not> criticalErrorOccurred s" "e_pageContent (E (stepCount s)) = Inr c"
    "generateNextStep v P (E (stepCount s)) = Some p'"
    "\<not> repeated (actionAttempts s) (actionKey p')" "\<not> inheritedKey (actionKey p')"
    by (rule iteration_ops_changed)
  then have pp: "p' = p" using p by simp
  have "actionAttempts (state_of (iteration v P (E (stepCount s)) s))
          = recordAttempt (actionAttempts s) key"
    using iteration_executed_attempts [OF ex(1-4)] pp p by simp
  then show "attemptCount (state_of (iteration v P (E (stepCount s)) s)) key = Suc (attemptCount s key)"
    using ex(5) pp p attemptCount_recordAttempt(1) by (simp add: attemptCount_def)
  show "attemptCount s key < 3"
    using ex(4) pp p by (auto simp: attemptCount_def repeated_def split: option.splits)
qed

lemma attemptsBounded_count: "attemptsBounded s \<Longrightarrow> attemptCount s k \<le> 3"
  unfolding attemptsBounded_def attemptCount_def
  by (erule allE [of _ k]) (auto split: option.splits)

lemma executor_calls_bounded:
  assumes "attemptsBounded s"
  shows "length (filter (callsExecutorFor v P E key) (fst (loop v P E s))) + attemptCount s key \<le> 3"
  using assms
proof (induction v P E s rule: loop.induct)
  case (1 v P E s)
  show ?case
  proof (cases "\<not> taskCompleted s \<and> stepCount s < maxSteps v")
    case False
    then have "loop v P E s = ([], Done s)" by (intro loop_stop) auto
    then show ?thesis using attemptsBounded_count [OF "1.prems", of key] by simp
  next
    case True
    have unfold: "loop v P E s =
           (case iteration v P (E (stepCount s)) s of
              Continue s' \<Rightarrow> (s # fst (loop v P E s'), snd (loop v P E s'))
            | Break s' \<Rightarrow> ([s], Done s')
            | Return s' out \<Rightarrow> ([s], Returned s' out)
            | Throw s' e \<Rightarrow> ([s], Thrown s' e))"
      using True by (intro loop_step) auto
    have here: "(if callsExecutorFor v P E key s then 1 else 0) + attemptCount s key
                  \<le> attemptCount (state_of (iteration v P (E (stepCount s)) s)) key"
      using callsExecutorFor_count(1) [of v P E key s] attemptCount_mono [of s key v P "E (stepCount s)"]
      by auto
    have bnd: "attemptsBounded (state_of (iteration v P (E (stepCount s)) s))"
      using iteration_bounded [OF "1.prems"] .
    show ?thesis
    proof (cases "iteration v P (E (stepCount s)) s")
      case (Continue s')
      then have s': "state_of (iteration v P (E (stepCount s)) s) = s'"
        by (simp add: state_of_def)
      have "length (filter (callsExecutorFor v P E key) (fst (loop v P E s'))) + attemptCount s' key \<le> 3"
        using "1.IH" [OF True Continue] bnd s' by simp
      then show ?thesis using unfold Continue here s' by auto
    next
      case (Break s')
      then show ?thesis using unfold here attemptsBounded_count [OF bnd, of key] by auto
    next
      case (Return s' out)
      then show ?thesis using unfold here attemptsBounded_count [OF bnd, of key] by auto
    next
      case (Throw s' e)
      then show ?thesis using unfold here attemptsBounded_count [OF bnd, of key] by auto
    qed
  qed
qed

lemma initialState_bounded: "attemptsBounded (initialState url t)"
  by (simp add: attemptsBounded_def initialState_def)

lemma afterStep_stepCount:
  "stepCount (state_of (afterStep v env p s)) = stepCount s + 1"
  by (auto simp: afterStep_def videoCheck_def state_of_def Let_def logLine_def during_frame
        split: if_splits sum.splits variant.splits prod.splits)

lemma iteration_stepCount_le:
  "stepCount (state_of (iteration v P env s)) \<le> stepCount s + 1"
proof (cases rule: iteration_cases [where s = s and env = env and v = v and P = P])
  case critical
  then show ?thesis by (simp add: iteration_def Let_def state_of_def logLine_def)
next
  case (read_throws e)
  then show ?thesis by (simp add: state_of_def during_frame)
next
  case (no_step c)
  then show ?thesis using iteration_no_step [OF no_step]
    by (simp add: state_of_def logLine_def afterReads_frame)
next
  case (skipped c p)
  then show ?thesis using iteration_skipped [OF skipped]
    by (simp add: state_of_def)
next
  case (executed c p)
  obtain s3 x where ts: "tryStep v env p (beforeTry p (afterReads v env s)) = (s3, x)"
    by (cases "tryStep v env p (beforeTry p (afterReads v env s))")
  have "stepCount s3 = stepCount (beforeTry p (afterReads v env s))"
    using tryStep_frame(1) [of v env p "beforeTry p (afterReads v env s)"] ts by simp
  then have s3: "stepCount s3 = stepCount s"
    by (simp add: beforeTry_frame afterReads_frame)
  show ?thesis
    using ts s3 iteration_executed [OF executed]
    by (cases x) (simp_all add: afterStep_stepCount, simp add: state_of_def)
qed

lemma upt_shift: "(a::nat) # [Suc a ..< Suc a + n] = [a ..< a + Suc n]"
  by (subst (2) upt_rec) simp

lemma loop_counter:
  "map stepCount (fst (loop v P E s))
     = [stepCount s ..< stepCount s + length (fst (loop v P E s))]
   \<and> stepCount s + length (fst (loop v P E s)) \<le> max (stepCount s) (maxSteps v)
   \<and> stepCount (exit_state (snd (loop v P E s))) \<le> stepCount s + length (fst (loop v P E s))"
proof (induction v P E s rule: loop.induct)
  case (1 v P E s)
  show ?case
  proof (cases "\<not> taskCompleted s \<and> stepCount s < maxSteps v")
    case False
    then have "loop v P E s = ([], Done s)" by (intro loop_stop) auto
    then show ?thesis by (simp add: exit_state_def)
  next
    case True
    have unfold: "loop v P E s =
           (case iteration v P (E (stepCount s)) s of
              Continue s' \<Rightarrow> (s # fst (loop v P E s'), snd (loop v P E s'))
            | Break s' \<Rightarrow> ([s], Done s')
            | Return s' out \<Rightarrow> ([s], Returned s' out)
            | Throw s' e \<Rightarrow> ([s], Thrown s' e))"
      using True by (intro loop_step) auto
    have le: "stepCount (state_of (iteration v P (E (stepCount s)) s)) \<le> stepCount s + 1"
      by (rule iteration_stepCount_le)
    show ?thesis
    proof (cases "iteration v P (E (stepCount s)) s")
      case (Continue s')
      have s': "stepCount s' = stepCount s + 1"
        using iteration_Continue [OF Continue] .
      have IH: "map stepCount (fst (loop v P E s'))
                  = [stepCount s' ..< stepCount s' + length (fst (loop v P E s'))]
          \<and> stepCount s' + length (fst (loop v P E s')) \<le> max (stepCount s') (maxSteps v)
          \<and> stepCount (exit_state (snd (loop v P E s')))
               \<le> stepCount s' + length (fst (loop v P E s'))"
        using "1.IH" [OF True Continue] .
      have "map stepCount (fst (loop v P E s))
              = stepCount s # [Suc (stepCount s) ..< Suc (stepCount s) + length (fst (loop v P E s'))]"
        using unfold Continue IH s' by simp
      also have "\<dots> = [stepCount s ..< stepCount s + length (fst (loop v P E s))]"
        using unfold Continue upt_shift [of "stepCount s" "length (fst (loop v P E s'))"] by simp
      finally have m: "map stepCount (fst (loop v P E s))
              = [stepCount s ..< stepCount s + length (fst (loop v P E s))]" .
      show ?thesis using m unfold Continue IH s' True by auto
    next
      case (Break s')
      then show ?thesis using unfold le True by (simp add: exit_state_def state_of_def)
    next
      case (Return s' out)
      then show ?thesis using unfold le True by (simp add: exit_state_def state_of_def)
    next
      case (Throw s' e)
      then show ?thesis using unfold le True by (simp add: exit_state_def state_of_def)
    qed
  qed
qed

lemma during_result:
  "\<exists>rest. result (during v env a s) = result s @ rest"
  unfolding during_def by (rule handleEvents_result)

lemma handleEvent_critical_mono:
  "criticalErrorOccurred s \<Longrightarrow> criticalErrorOccurred (handleEvent v ev s)"
  by (simp add: handleEvent_def onConsole_def onRequestFailed_def onPageError_def
        logLine_def Let_def split: page_event.splits option.splits variant.splits)

lemma handleEvents_critical_mono:
  "criticalErrorOccurred s \<Longrightarrow> criticalErrorOccurred (handleEvents v evs s)"
  unfolding handleEvents_def
  by (induction evs arbitrary: s) (simp_all add: handleEvent_critical_mono)

lemma switchAction_noClose:
  "Close \<notin> set (ops s) \<Longrightarrow> Close \<notin> set (ops (fst (switchAction v env p s)))"
  by (auto simp: switchAction_def attempt_def call_def pushCompleted_def logLine_def Let_def
        during_frame split: if_splits sum.splits variant.splits)

lemma catchStepError_noClose:
  "Close \<notin> set (ops s) \<Longrightarrow> Close \<notin> set (ops (fst (catchStepError v env p e s)))"
  by (auto simp: catchStepError_def call_def logLine_def Let_def during_frame
        split: if_splits sum.splits option.splits variant.splits)

lemma tryStep_noClose:
  assumes "Close \<notin> set (ops s)"
  shows "Close \<notin> set (ops (fst (tryStep v env p s)))"
proof -
  obtain t x where sw: "switchAction v env p s = (t, x)"
    by (cases "switchAction v env p s")
  have t: "Close \<notin> set (ops t)"
    using switchAction_noClose [OF assms, of v env p] sw by simp
  show ?thesis
    using sw t by (cases x) (simp_all add: tryStep_def logLine_def catchStepError_noClose)
qed

lemma iteration_noClose:
  assumes "noClose s"
  shows "noClose (state_of (iteration v P env s))"
proof (cases rule: iteration_cases [where s = s and env = env and v = v and P = P])
  case critical
  then show ?thesis using assms
    by (simp add: iteration_def Let_def state_of_def logLine_def noClose_def)
next
  case (read_throws e)
  then show ?thesis using assms by (simp add: state_of_def during_frame noClose_def)
next
  case (no_step c)
  then show ?thesis using assms iteration_no_step [OF no_step]
    by (simp add: state_of_def logLine_def afterReads_frame noClose_def)
next
  case (skipped c p)
  then show ?thesis using assms iteration_skipped [OF skipped]
    by (simp add: state_of_def afterReads_frame noClose_def)
next
  case (executed c p)
  obtain s3 x where ts: "tryStep v env p (beforeTry p (afterReads v env s)) = (s3, x)"
    by (cases "tryStep v env p (beforeTry p (afterReads v env s))")
  have "Close \<notin> set (ops (beforeTry p (afterReads v env s)))"
    using assms by (simp add: beforeTry_frame afterReads_frame noClose_def)
  then have s3: "Close \<notin> set (ops s3)"
    using tryStep_noClose [of "beforeTry p (afterReads v env s)" v env p] ts by simp
  show ?thesis
    using ts s3 iteration_executed [OF executed]
    by (cases x) (simp_all add: afterStep_frame noClose_def, simp add: state_of_def)
qed

lemma loop_noClose:
  assumes "noClose s"
  shows "noClose (exit_state (snd (loop v P E s)))"
  using loop_invariant [of noClose v P s E] iteration_noClose assms by blast

lemma loopAndFinish_noClose:
  assumes "noClose s"
  shows "Close \<notin> set (fst (loopAndFinish v P env s))"
  using loop_noClose [OF assms, of v P "r_iter env"]
  by (auto simp: loopAndFinish_def exit_state_def noClose_def split: loop_exit.splits)

lemma handleEvents_router_result:
  "result (handleEvents Router evs s) = result s"
  unfolding handleEvents_def
  by (induction evs arbitrary: s)
     (simp_all add: handleEvent_def onConsole_def onRequestFailed_def onPageError_def Let_def
        split: page_event.splits option.splits)

lemma tryBlock_router_noClose:
  assumes "Close \<notin> set tr"
  shows "Close \<notin> set (fst (tryBlock_router P url env tr))"
proof -
  have "noClose (handleEvents Router evs (call (Goto url) (initialState url tr)))" for evs
    using assms by (simp add: noClose_def handleEvents_frame call_def initialState_def)
  moreover have "noClose (logLine l (handleEvents Router evs (call (Goto url) (initialState url tr))))" for evs l
    using assms by (simp add: noClose_def handleEvents_frame call_def initialState_def logLine_def)
  ultimately show ?thesis using assms loopAndFinish_noClose
    by (auto simp: tryBlock_router_def Let_def call_def initialState_def logLine_def
          handleEvents_frame split: nav_result.splits)
qed

lemma tryBlock_service_noClose:
  assumes "Close \<notin> set tr"
  shows "Close \<notin> set (fst (tryBlock_service P url env tr))"
proof -
  have "noClose (initialState url (tr @ [Goto url]))"
    using assms by (simp add: noClose_def initialState_def)
  then show ?thesis using assms loopAndFinish_noClose
    by (auto simp: tryBlock_service_def Let_def split: nav_result.splits)
qed

lemma catchBlock_fst: "fst (catchBlock r) = fst r"
  by (cases r) (auto simp: catchBlock_def split: sum.splits)

lemma catchBlock_snd:
  "snd (catchBlock r) =
     (case snd r of
        Inl error \<Rightarrow> Inr \<lparr>o_result = ''An error occurred during the analysis'',
                           o_screenshots = None, o_error = Some (message error)\<rparr>
      | Inr out \<Rightarrow> Inr out)"
  by (cases r) (auto simp: catchBlock_def split: sum.splits)

lemma run_trace:
  assumes "r_launch env = None" "v = Router \<longrightarrow> r_newPage env = None"
  shows "\<exists>tr. fst (runQualityAnalysis v P url env) = tr @ [Close] \<and> Close \<notin> set tr"
proof (cases v)
  case Router
  then show ?thesis using assms tryBlock_router_noClose [of "[Launch, NewPage]" P url env]
    by (simp add: runQualityAnalysis_def finallyClose_def catchBlock_fst split: option.splits)
next
  case Service
  then show ?thesis using assms tryBlock_service_noClose [of "[Launch, NewPage]" P url env]
    by (auto simp: runQualityAnalysis_def finallyClose_def catchBlock_fst split: option.splits)
qed

lemma tryStep_navigate_done:
  assumes "p_action p = ''NAVIGATE''" "''NAVIGATE'' \<in> set (completedActions s)"
  shows "tryStep v env p s = (logLine (''Step completed successfully'' @ nl) s, None)"
  using assms by (simp add: tryStep_def switchAction_def)

lemma tryStep_summarize:
  assumes "p_action p = ''SUMMARIZE''" "e_exec env = Inr summary"
  shows "tryStep v env p s =
           (logLine (''Step completed successfully'' @ nl)
              ((pushCompleted ''SUMMARIZE''
                  (logLine (''Summary: '' @ summary @ nl) (during v env AtAct (call SummarizePage s))))
                 \<lparr>taskCompleted := True\<rparr>), None)"
  using assms by (simp add: tryStep_def switchAction_def attempt_def)

lemma afterStep_taskCompleted:
  "taskCompleted s \<Longrightarrow> taskCompleted (state_of (afterStep v env p s))"
  by (auto simp: afterStep_def videoCheck_def state_of_def Let_def logLine_def during_frame
        split: if_splits sum.splits variant.splits prod.splits)

lemma webSwitch_noClose:
  "Close \<notin> set (ws_ops s) \<Longrightarrow> Close \<notin> set (ws_ops (fst (webSwitch env step a s)))"
  by (auto simp: webSwitch_def wattempt_def wcall_def wlog_def Let_def
        split: if_splits sum.splits option.splits)

lemma webSwitch_noClose_dest:
  "webSwitch env step a t = (t', x) \<Longrightarrow> Close \<notin> set (ws_ops t) \<Longrightarrow> Close \<notin> set (ws_ops t')"
  using webSwitch_noClose [of t env step a] by simp

lemma webIteration_noClose:
  assumes "Close \<notin> set (ws_ops s)"
  shows "case webIteration P env s of
           WContinue s' \<Rightarrow> Close \<notin> set (ws_ops s')
         | WBreak s' \<Rightarrow> Close \<notin> set (ws_ops s')
         | WThrow s' e \<Rightarrow> Close \<notin> set (ws_ops s')"
  using assms
  by (auto simp: webIteration_def wlog_def Let_def
        split: sum.splits option.splits prod.splits if_splits
        dest: webSwitch_noClose_dest)

lemma webLoop_noClose:
  "Close \<notin> set (ws_ops s) \<Longrightarrow> webLoop fuel P E i s = Some (s', x) \<Longrightarrow> Close \<notin> set (ws_ops s')"
proof (induction fuel arbitrary: i s)
  case 0
  then show ?case by (auto split: if_splits)
next
  case (Suc fuel)
  show ?case
  proof (cases "\<not> ws_taskCompleted s \<and> ws_stepCount s < 20")
    case False
    then show ?thesis using Suc.prems by auto
  next
    case True
    show ?thesis
    proof (cases "webIteration P (E i) s")
      case (WContinue t)
      then have "Close \<notin> set (ws_ops t)"
        using webIteration_noClose [OF Suc.prems(1), of P "E i"] by simp
      moreover have "webLoop fuel P E (Suc i) t = Some (s', x)"
        using Suc.prems(2) True WContinue by simp
      ultimately show ?thesis using Suc.IH by blast
    next
      case (WBreak t)
      then show ?thesis
        using webIteration_noClose [OF Suc.prems(1), of P "E i"] Suc.prems(2) True by simp
    next
      case (WThrow t e)
      then show ?thesis
        using webIteration_noClose [OF Suc.prems(1), of P "E i"] Suc.prems(2) True by simp
    qed
  qed
qed

lemma webTry_noClose:
  assumes "Close \<notin> set (ws_ops s)" "webTry fuel P env s = Some (s', x)"
  shows "Close \<notin> set (ws_ops s')"
proof (cases "generateInstructions P (wr_instructions env) 0")
  case (Inl e)
  then show ?thesis using assms by (simp add: webTry_def)
next
  case (Inr j)
  show ?thesis
  proof (cases j)
    case None
    then show ?thesis using assms Inr by (auto simp: webTry_def wlog_def)
  next
    case (Some initialStep)
    let ?s1 = "wcall (Goto (textOf (w_param initialStep)))
                 (wlog (''Initial step:'' @ nl @ w_json initialStep @ nl @ nl) s)"
    let ?s2 = "wlog (''Navigated to: '' @ textOf (w_param initialStep) @ nl)
                 (?s1\<lparr>ws_currentUrl := w_param initialStep\<rparr>)"
    have s1: "Close \<notin> set (ws_ops ?s1)" using assms(1) by (simp add: wcall_def wlog_def)
    have s2: "Close \<notin> set (ws_ops ?s2)" using assms(1) by (simp add: wcall_def wlog_def)
    show ?thesis
    proof (cases "wr_goto env")
      case (Some e)
      then show ?thesis using assms(2) Inr \<open>j = Some initialStep\<close> s1
        by (auto simp: webTry_def Let_def)
    next
      case None
      then have "case webLoop fuel P (wr_iter env) 0 ?s2 of
                   None \<Rightarrow> False
                 | Some (s3, Some e) \<Rightarrow> s' = s3
                 | Some (s3, None) \<Rightarrow> s' = wlog (''Final URL: '' @ textOf (ws_currentUrl s3) @ nl) s3"
        using assms(2) Inr \<open>j = Some initialStep\<close>
        by (auto simp: webTry_def Let_def split: option.splits prod.splits)
      then show ?thesis using webLoop_noClose [OF s2]
        by (auto simp: wlog_def split: option.splits prod.splits)
    qed
  qed
qed

lemma executeWebTask_noClose:
  assumes "executeWebTask fuel W wenv = Some r"
  shows "Close \<notin> set (fst r)"
proof -
  let ?s0 = "\<lparr>ws_result = [], ws_currentUrl = Some [], ws_taskCompleted = False,
               ws_stepCount = 0, ws_ops = [Launch, NewPage]\<rparr>"
  have s0: "Close \<notin> set (ws_ops ?s0)" by simp
  show ?thesis
  proof (cases "wr_launch wenv")
    case (Some e)
    then show ?thesis using assms by (auto simp: executeWebTask_def)
  next
    case None
    show ?thesis
    proof (cases "wr_newPage wenv")
      case (Some e)
      then show ?thesis using assms None by (auto simp: executeWebTask_def)
    next
      case np: None
      then obtain s x where t: "webTry fuel W wenv ?s0 = Some (s, x)"
        and r: "fst r = ws_ops (case x of None \<Rightarrow> s
                                  | Some error \<Rightarrow> wlog (''Error: '' @ message error @ nl) s)"
        using assms None
        by (auto simp: executeWebTask_def Let_def split: option.splits prod.splits)
      have "Close \<notin> set (ws_ops s)" using webTry_noClose [OF s0 t] .
      then show ?thesis using r by (cases x) (simp_all add: wlog_def)
    qed
  qed
qed

lemma waitThenCrash_loop:
  "snd (loop Service exampleParser waitThenCrash
          (initialState ''https://example.com/'' [Launch, NewPage, Goto ''https://example.com/'']))
   = Thrown ((initialState ''https://example.com/''
                [Launch, NewPage, Goto ''https://example.com/'', Wait 500])
               \<lparr>result := ''Step 1: '' @ p_json waitStep @ nl @ ''Step completed successfully'' @ nl,
                currentState := ''URL: https://example.com/'' @ nl @ ''Last action: WAIT'' @ nl
                                  @ ''Completed actions: WAIT'',
                completedActions := [''WAIT''],
                actionAttempts := [''WAIT_'' \<mapsto> 1],
                stepCount := 1\<rparr>)
       (Error ''Execution context was destroyed'')"
  by (simp add: loop.simps iteration_def generateNextStep_def generateNextStep_service_def
        generateNextStep_service_try_def cleanedContent_def stripFenceStart_def
        stripFenceEnd_def startsWith_def
        waitThenCrash_def quietEnv_def exampleParser_def waitStep_def clickStep_def
        maxSteps_def initialState_def repeated_def recordAttempt_def inheritedKey_def
        actionKey_def orElse_def truthy_def tryStep_def switchAction_def pushCompleted_def
        waitMs_def afterStep_def videoCheck_def call_def logLine_def afterReads_def
        during_def handleEvents_def string_of_nat.simps digit_def nl_def Let_def)

lemma during_critical_mono:
  "criticalErrorOccurred s \<Longrightarrow> criticalErrorOccurred (during v env a s)"
  by (simp add: during_def handleEvents_critical_mono)

lemma afterReads_critical_mono:
  "criticalErrorOccurred s \<Longrightarrow> criticalErrorOccurred (afterReads v env s)"
  by (simp add: afterReads_def during_critical_mono)






lemma catchStepError_raises:
  "snd (catchStepError v env p stepError s) = Some e \<Longrightarrow> raises env e"
  by (auto simp: catchStepError_def findAlternativeSelector_def raises_def Let_def
        split: if_splits sum.splits option.splits)

lemma tryStep_raises:
  assumes "tryStep v env p s = (s', Some e)"
  shows "raises env e"
proof -
  obtain t x where sw: "switchAction v env p s = (t, x)"
    by (cases "switchAction v env p s")
  show ?thesis
  proof (cases x)
    case None
    then show ?thesis using assms sw by (simp add: tryStep_def)
  next
    case (Some stepError)
    then have "snd (catchStepError v env p stepError t) = Some e"
      using assms sw by (simp add: tryStep_def)
    then show ?thesis by (rule catchStepError_raises)
  qed
qed

lemma afterStep_exit:
  "case afterStep v env p s of
     Continue s' \<Rightarrow> stepCount s' = stepCount s + 1
   | Break s' \<Rightarrow> False
   | Return s' out \<Rightarrow> False
   | Throw s' e \<Rightarrow> raises env e \<and> stepCount s' = stepCount s + 1"
  by (auto simp: afterStep_def videoCheck_def raises_def Let_def logLine_def during_frame
        split: if_splits sum.splits variant.splits prod.splits)

lemma iteration_exit:
  "case iteration v P env s of
     Continue s' \<Rightarrow> stepCount s' = stepCount s + 1
   | Break s' \<Rightarrow> generateNextStep v P env = None \<and> stepCount s' = stepCount s
   | Return s' out \<Rightarrow> criticalErrorOccurred s \<and> stepCount s' = stepCount s
   | Throw s' e \<Rightarrow> raises env e \<and> stepCount s' \<le> stepCount s + 1"
proof (cases rule: iteration_cases [where s = s and env = env and v = v and P = P])
  case critical
  then show ?thesis by (simp add: iteration_def Let_def logLine_def)
next
  case (read_throws e)
  then show ?thesis by (simp add: raises_def during_frame)
next
  case (no_step c)
  then show ?thesis using iteration_no_step [OF no_step]
    by (simp add: logLine_def afterReads_frame)
next
  case (skipped c p)
  then show ?thesis using iteration_skipped [OF skipped] by simp
next
  case (executed c p)
  obtain s3 x where ts: "tryStep v env p (beforeTry p (afterReads v env s)) = (s3, x)"
    by (cases "tryStep v env p (beforeTry p (afterReads v env s))")
  have "stepCount s3 = stepCount (beforeTry p (afterReads v env s))"
    using tryStep_frame(1) [of v env p "beforeTry p (afterReads v env s)"] ts by simp
  then have s3: "stepCount s3 = stepCount s"
    by (simp add: beforeTry_frame afterReads_frame)
  show ?thesis
  proof (cases x)
    case None
    then have "iteration v P env s = afterStep v env p s3"
      using ts iteration_executed [OF executed] by simp
    then show ?thesis using afterStep_exit [where v = v and env = env and p = p and s = s3] s3
      by (auto split: iter_result.splits)
  next
    case (Some e)
    then have "iteration v P env s = Throw s3 e"
      using ts iteration_executed [OF executed] by simp
    then show ?thesis using tryStep_raises [of v env p _ s3 e] ts Some s3 by simp
  qed
qed

lemma iteration_progress:
  assumes "\<not> criticalErrorOccurred s" "generateNextStep v P env \<noteq> None" "\<forall>e. \<not> raises env e"
  shows "\<exists>s'. iteration v P env s = Continue s' \<and> stepCount s' = stepCount s + 1"
  using iteration_exit [where v = v and P = P and env = env and s = s] assms
  by (cases "iteration v P env s") auto

lemma loopEntry_stepCount: "stepCount (loopEntry v url env tr) = 0"
  by (simp add: loopEntry_def initialState_def call_def logLine_def handleEvents_frame Let_def
        split: variant.splits nav_result.splits)

lemma loopEntry_bounded: "attemptsBounded (loopEntry v url env tr)"
  by (simp add: attemptsBounded_def loopEntry_def initialState_def call_def logLine_def
        handleEvents_frame Let_def split: variant.splits nav_result.splits)

lemma tryBlock_loopEntry:
  assumes "entersLoop v env"
  shows "(case v of
            Router \<Rightarrow> tryBlock_router P url env tr
          | Service \<Rightarrow> tryBlock_service P url env tr)
         = loopAndFinish v P env (loopEntry v url env tr)"
  using assms
  by (auto simp: entersLoop_def loopEntry_def tryBlock_router_def tryBlock_service_def Let_def
        split: variant.splits nav_result.splits)

lemma waitThenCrash_length:
  "length (fst (loop Service exampleParser waitThenCrash
                  (initialState ''https://example.com/'' [Launch, NewPage, Goto ''https://example.com/''])))
   = 2"
  by (simp add: loop.simps iteration_def generateNextStep_def generateNextStep_service_def
        generateNextStep_service_try_def cleanedContent_def stripFenceStart_def
        stripFenceEnd_def startsWith_def
        waitThenCrash_def quietEnv_def exampleParser_def waitStep_def clickStep_def
        maxSteps_def initialState_def repeated_def recordAttempt_def inheritedKey_def
        actionKey_def orElse_def truthy_def tryStep_def switchAction_def pushCompleted_def
        waitMs_def afterStep_def videoCheck_def call_def logLine_def afterReads_def
        during_def handleEvents_def string_of_nat.simps digit_def nl_def Let_def)

lemma afterReads_result:
  "\<exists>rest. result (afterReads v env s) = result s @ rest"
proof -
  obtain r1 where r1: "result (during v env AtRead s) = result s @ r1"
    using during_result by blast
  obtain r2 where "result (afterReads v env s) = result (during v env AtRead s) @ r2"
    unfolding afterReads_def using during_result by blast
  then show ?thesis using r1 by simp
qed

lemma afterReads_router_result:
  "result (afterReads Router env s) = result s"
  by (simp add: afterReads_def during_def handleEvents_router_result)






subsection \<open>Claims\<close>

text \<open>
  C1. In every run of the router and of the service, in every state in which an
  iteration starts and in the state in which the loop is left, every recorded attempt
  count is at most 3; for every action key, at most 3 iterations of the run that are
  given a proposal with that key make a browser call; and an iteration that is given a
  proposal whose key has 3 recorded attempts is skipped: it makes no browser call,
  leaves the counts as they are, and appends the step line and the line "Skipping
  repeated action" to the transcript, after whatever the \<^verbatim>\<open>pageerror\<close> handler of the
  service wrote while the page was read and the proposal generated (in the router:
  nothing).
\<close>

theorem repetition_cap:
  "list_all attemptsBounded (fst (loop v P E (loopEntry v url renv tr)))
   \<and> attemptsBounded (exit_state (snd (loop v P E (loopEntry v url renv tr))))
   \<and> length (filter (callsExecutorFor v P E key) (fst (loop v P E (loopEntry v url renv tr)))) \<le> 3
   \<and> (\<not> criticalErrorOccurred s \<and> e_pageContent env = Inr c
        \<and> generateNextStep v P env = Some p \<and> actionAttempts s (actionKey p) = Some 3
      \<longrightarrow> (\<exists>s' pre. iteration v P env s = Continue s' \<and> ops s' = ops s
             \<and> actionAttempts s' = actionAttempts s
             \<and> result (afterReads v env s) = result s @ pre
             \<and> (v = Router \<longrightarrow> pre = [])
             \<and> result s' = result s @ pre @ ''Step '' @ string_of_nat (stepCount s + 1) @ '': ''
                             @ p_json p @ nl
                             @ ''Skipping repeated action: '' @ actionKey p @ nl))"
proof (intro conjI impI)
  have inv: "list_all attemptsBounded (fst (loop v P E (loopEntry v url renv tr)))
      \<and> attemptsBounded (exit_state (snd (loop v P E (loopEntry v url renv tr))))"
    by (rule loop_invariant) (simp_all add: iteration_bounded loopEntry_bounded)
  show "list_all attemptsBounded (fst (loop v P E (loopEntry v url renv tr)))"
    "attemptsBounded (exit_state (snd (loop v P E (loopEntry v url renv tr))))"
    using inv by simp_all
  show "length (filter (callsExecutorFor v P E key) (fst (loop v P E (loopEntry v url renv tr)))) \<le> 3"
    using executor_calls_bounded [where s = "loopEntry v url renv tr" and v = v and P = P
        and E = E and key = key, OF loopEntry_bounded] by simp
next
  assume a: "\<not> criticalErrorOccurred s \<and> e_pageContent env = Inr c
        \<and> generateNextStep v P env = Some p \<and> actionAttempts s (actionKey p) = Some 3"
  then have rep: "repeated (actionAttempts s) (actionKey p)" by (simp add: repeated_def)
  let ?t = "(afterReads v env s)
             \<lparr>result := result (afterReads v env s) @ ''Step '' @ string_of_nat (stepCount s + 1)
                          @ '': '' @ p_json p @ nl
                          @ ''Skipping repeated action: '' @ actionKey p @ nl,
              stepCount := stepCount s + 1\<rparr>"
  have it: "iteration v P env s = Continue ?t"
    using iteration_skipped [of s env c v P p] a rep by simp
  obtain pre where pre: "result (afterReads v env s) = result s @ pre"
    using afterReads_result by blast
  have "v = Router \<longrightarrow> pre = []"
    using pre afterReads_router_result [of env s] by auto
  then show "\<exists>s' pre. iteration v P env s = Continue s' \<and> ops s' = ops s
             \<and> actionAttempts s' = actionAttempts s
             \<and> result (afterReads v env s) = result s @ pre
             \<and> (v = Router \<longrightarrow> pre = [])
             \<and> result s' = result s @ pre @ ''Step '' @ string_of_nat (stepCount s + 1) @ '': ''
                             @ p_json p @ nl
                             @ ''Skipping repeated action: '' @ actionKey p @ nl"
    using it pre by (simp add: afterReads_frame)
qed

theorem repetition_cap_witness:
  "\<not> criticalErrorOccurred thriceClicked
   \<and> e_pageContent (quietEnv (p_json clickStep)) = Inr ''page''
   \<and> generateNextStep Router exampleParser (quietEnv (p_json clickStep)) = Some clickStep
   \<and> actionAttempts thriceClicked (actionKey clickStep) = Some 3
   \<and> (\<exists>s'. iteration Router exampleParser (quietEnv (p_json clickStep)) thriceClicked
                     = Continue s'
         \<and> ops s' = [Launch, NewPage, Goto ''https://example.com/'']
         \<and> actionAttempts s' = [''CLICK_#go'' \<mapsto> 3]
         \<and> result s' = ''Step 4: '' @ p_json clickStep @ nl
                         @ ''Skipping repeated action: CLICK_#go'' @ nl)"
proof -
  have h1: "\<not> criticalErrorOccurred thriceClicked"
    by (simp add: thriceClicked_def initialState_def)
  have h2: "e_pageContent (quietEnv (p_json clickStep)) = Inr ''page''"
    by (simp add: quietEnv_def)
  have h3: "generateNextStep Router exampleParser (quietEnv (p_json clickStep)) = Some clickStep"
    by (simp add: generateNextStep_def generateNextStep_router_def
          generateNextStep_router_try_def quietEnv_def exampleParser_def clickStep_def)
  have h4: "actionAttempts thriceClicked (actionKey clickStep) = Some 3"
    by (simp add: thriceClicked_def actionKey_def clickStep_def orElse_def)
  have k: "actionKey clickStep = ''CLICK_#go''"
    by (simp add: actionKey_def clickStep_def orElse_def)
  have n: "string_of_nat (stepCount thriceClicked + 1) = ''4''"
    by (simp add: thriceClicked_def string_of_nat.simps digit_def)
  from repetition_cap [where v = Router and P = exampleParser
      and E = "\<lambda>k. quietEnv (p_json clickStep)" and url = "''https://example.com/''"
      and renv = "quietRun (NavResponse 200) (\<lambda>k. quietEnv (p_json clickStep))"
      and tr = "[]" and key = "''CLICK_#go''" and s = thriceClicked
      and env = "quietEnv (p_json clickStep)" and c = "''page''" and p = clickStep]
  have "\<exists>s' pre. iteration Router exampleParser (quietEnv (p_json clickStep)) thriceClicked
                     = Continue s'
         \<and> ops s' = ops thriceClicked \<and> actionAttempts s' = actionAttempts thriceClicked
         \<and> result (afterReads Router (quietEnv (p_json clickStep)) thriceClicked)
             = result thriceClicked @ pre
         \<and> (Router = Router \<longrightarrow> pre = [])
         \<and> result s' = result thriceClicked @ pre
                         @ ''Step '' @ string_of_nat (stepCount thriceClicked + 1)
                         @ '': '' @ p_json clickStep @ nl
                         @ ''Skipping repeated action: '' @ actionKey clickStep @ nl"
    using h1 h2 h3 h4 by blast
  then obtain s' where "iteration Router exampleParser (quietEnv (p_json clickStep)) thriceClicked
                     = Continue s'"
    "ops s' = ops thriceClicked" "actionAttempts s' = actionAttempts thriceClicked"
    "result s' = result thriceClicked @ ''Step '' @ string_of_nat (stepCount thriceClicked + 1)
                         @ '': '' @ p_json clickStep @ nl
                         @ ''Skipping repeated action: '' @ actionKey clickStep @ nl"
    by auto
  then show ?thesis using h1 h2 h3 h4 unfolding k n
    by (simp add: thriceClicked_def initialState_def)
qed

text \<open>
  C2. In every run of the router and of the service the step counter is 0 when the loop
  is entered, and the iterations of the run start with the counter at 0, 1, 2, ... in
  turn. The loop makes at most \<open>maxSteps\<close> iterations (10 in the router, 15 in the
  service) and the counter never exceeds \<open>maxSteps\<close>, neither when an iteration starts
  nor when the loop is left. Every iteration ends in one of four ways: it hands over to
  the loop condition with the counter increased by exactly 1; it leaves the loop by
  \<^verbatim>\<open>break\<close>, which happens only when no step was generated; it returns, which happens
  only when the critical flag was set at its start; or one of its calls outside the
  \<^verbatim>\<open>try\<close> of the step raised the exception it ends with. So an iteration that starts
  without the critical flag, is given a step and in which none of these calls raises,
  be the step executed or skipped, increases the counter by exactly 1 and goes on.
\<close>

theorem step_counter_bounded:
  "stepCount (loopEntry v url renv tr) = 0
   \<and> map stepCount (fst (loop v P E (loopEntry v url renv tr)))
       = [0 ..< length (fst (loop v P E (loopEntry v url renv tr)))]
   \<and> length (fst (loop v P E (loopEntry v url renv tr))) \<le> maxSteps v
   \<and> stepCount (exit_state (snd (loop v P E (loopEntry v url renv tr)))) \<le> maxSteps v
   \<and> (case iteration v P env s of
         Continue s' \<Rightarrow> stepCount s' = stepCount s + 1
       | Break s' \<Rightarrow> generateNextStep v P env = None \<and> stepCount s' = stepCount s
       | Return s' out \<Rightarrow> criticalErrorOccurred s \<and> stepCount s' = stepCount s
       | Throw s' e \<Rightarrow> raises env e \<and> stepCount s' \<le> stepCount s + 1)
   \<and> (\<not> criticalErrorOccurred s \<and> generateNextStep v P env \<noteq> None \<and> (\<forall>e. \<not> raises env e)
        \<longrightarrow> (\<exists>s'. iteration v P env s = Continue s' \<and> stepCount s' = stepCount s + 1))
   \<and> (entersLoop v renv
        \<longrightarrow> (case v of
               Router \<Rightarrow> tryBlock_router P url renv tr
             | Service \<Rightarrow> tryBlock_service P url renv tr)
            = loopAndFinish v P renv (loopEntry v url renv tr))"
proof -
  have z: "stepCount (loopEntry v url renv tr) = 0" by (rule loopEntry_stepCount)
  have a: "map stepCount (fst (loop v P E (loopEntry v url renv tr)))
       = [0 ..< length (fst (loop v P E (loopEntry v url renv tr)))]"
    and b: "length (fst (loop v P E (loopEntry v url renv tr))) \<le> maxSteps v"
    and c: "stepCount (exit_state (snd (loop v P E (loopEntry v url renv tr)))) \<le> maxSteps v"
    using loop_counter [of v P E "loopEntry v url renv tr"] z by auto
  have d: "case iteration v P env s of
         Continue s' \<Rightarrow> stepCount s' = stepCount s + 1
       | Break s' \<Rightarrow> generateNextStep v P env = None \<and> stepCount s' = stepCount s
       | Return s' out \<Rightarrow> criticalErrorOccurred s \<and> stepCount s' = stepCount s
       | Throw s' e \<Rightarrow> raises env e \<and> stepCount s' \<le> stepCount s + 1"
    by (rule iteration_exit)
  have e: "\<not> criticalErrorOccurred s \<and> generateNextStep v P env \<noteq> None \<and> (\<forall>e. \<not> raises env e)
        \<longrightarrow> (\<exists>s'. iteration v P env s = Continue s' \<and> stepCount s' = stepCount s + 1)"
    using iteration_progress [of s v P env] by blast
  have f: "entersLoop v renv
        \<longrightarrow> (case v of
               Router \<Rightarrow> tryBlock_router P url renv tr
             | Service \<Rightarrow> tryBlock_service P url renv tr)
            = loopAndFinish v P renv (loopEntry v url renv tr)"
    using tryBlock_loopEntry [of v renv P url tr] by blast
  show ?thesis using z a b c d e f by blast
qed

theorem step_counter_bounded_witness:
  "\<not> criticalErrorOccurred (loopEntry Service ''https://example.com/''
          (quietRun (NavResponse 200) waitThenCrash) [Launch, NewPage])
   \<and> generateNextStep Service exampleParser (waitThenCrash 0) \<noteq> None
   \<and> (\<forall>e. \<not> raises (waitThenCrash 0) e)
   \<and> entersLoop Service (quietRun (NavResponse 200) waitThenCrash)
   \<and> (\<exists>s'. iteration Service exampleParser (waitThenCrash 0)
               (loopEntry Service ''https://example.com/''
                  (quietRun (NavResponse 200) waitThenCrash) [Launch, NewPage]) = Continue s'
          \<and> stepCount s' = 1 \<and> ops s' = [Launch, NewPage, Goto ''https://example.com/'', Wait 500])
   \<and> map stepCount (fst (loop Service exampleParser waitThenCrash
          (loopEntry Service ''https://example.com/''
             (quietRun (NavResponse 200) waitThenCrash) [Launch, NewPage]))) = [0, 1]
   \<and> tryBlock_service exampleParser ''https://example.com/''
        (quietRun (NavResponse 200) waitThenCrash) [Launch, NewPage]
      = loopAndFinish Service exampleParser (quietRun (NavResponse 200) waitThenCrash)
          (loopEntry Service ''https://example.com/''
             (quietRun (NavResponse 200) waitThenCrash) [Launch, NewPage])"
proof -
  let ?run = "quietRun (NavResponse 200) waitThenCrash"
  let ?s = "loopEntry Service ''https://example.com/'' ?run [Launch, NewPage]"
  have s: "?s = initialState ''https://example.com/'' [Launch, NewPage, Goto ''https://example.com/'']"
    by (simp add: loopEntry_def)
  have h1: "\<not> criticalErrorOccurred ?s" by (simp add: s initialState_def)
  have h2: "generateNextStep Service exampleParser (waitThenCrash 0) \<noteq> None"
    by (simp add: generateNextStep_def generateNextStep_service_def
          generateNextStep_service_try_def cleanedContent_def stripFenceStart_def
          stripFenceEnd_def startsWith_def waitThenCrash_def quietEnv_def exampleParser_def
          waitStep_def clickStep_def)
  have h3: "\<forall>e. \<not> raises (waitThenCrash 0) e"
    by (simp add: raises_def waitThenCrash_def quietEnv_def)
  have h4: "entersLoop Service ?run" by (simp add: entersLoop_def quietRun_def ok_def)
  have ops: "ops (state_of (iteration Service exampleParser (waitThenCrash 0) ?s))
               = [Launch, NewPage, Goto ''https://example.com/'', Wait 500]"
    unfolding s
    by (simp add: iteration_def generateNextStep_def generateNextStep_service_def
        generateNextStep_service_try_def cleanedContent_def stripFenceStart_def
        stripFenceEnd_def startsWith_def
        waitThenCrash_def quietEnv_def exampleParser_def waitStep_def clickStep_def
        initialState_def repeated_def recordAttempt_def inheritedKey_def
        actionKey_def orElse_def truthy_def tryStep_def switchAction_def pushCompleted_def
        waitMs_def afterStep_def videoCheck_def call_def logLine_def afterReads_def
        during_def handleEvents_def state_of_def string_of_nat.simps digit_def nl_def Let_def)
  note T = step_counter_bounded [where v = Service and url = "''https://example.com/''"
      and renv = ?run and tr = "[Launch, NewPage]" and P = exampleParser and E = waitThenCrash
      and env = "waitThenCrash 0" and s = ?s]
  have a: "map stepCount (fst (loop Service exampleParser waitThenCrash ?s))
             = [0 ..< length (fst (loop Service exampleParser waitThenCrash ?s))]"
    using T by (elim conjE)
  have b: "\<exists>s'. iteration Service exampleParser (waitThenCrash 0) ?s = Continue s'
             \<and> stepCount s' = stepCount ?s + 1"
    using T h1 h2 h3 by blast
  have c: "tryBlock_service exampleParser ''https://example.com/'' ?run [Launch, NewPage]
             = loopAndFinish Service exampleParser ?run ?s"
    using T h4 by simp
  have len: "length (fst (loop Service exampleParser waitThenCrash ?s)) = 2"
    unfolding s by (rule waitThenCrash_length)
  have a': "map stepCount (fst (loop Service exampleParser waitThenCrash ?s)) = [0, 1]"
    using a unfolding len by (simp add: upt_rec)
  have b': "\<exists>s'. iteration Service exampleParser (waitThenCrash 0) ?s = Continue s'
             \<and> stepCount s' = 1
             \<and> ops s' = [Launch, NewPage, Goto ''https://example.com/'', Wait 500]"
    using b ops by (auto simp: state_of_def s initialState_def)
  show ?thesis using h1 h2 h3 h4 a' b' c by blast
qed

text \<open>
  C3 (as amended). A reply that is not well-formed structured data never makes the
  next-step generators of the QA loop raise or return nothing: the router's generator
  returns the safe default proposal, whose action is SUMMARIZE, when neither the reply
  nor its part from the first \<^verbatim>\<open>{\<close> to the last \<^verbatim>\<open>}\<close> parses, and the service's
  generator returns it when the reply, freed of the code fence and of \<^verbatim>\<open>//\<close> comments,
  does not parse. The generator of the web task executor throws instead ("Failed to
  get a valid JSON response. Please try again."), and the oldest generator returns
  null.
\<close>

theorem malformed_reply_default:
  "p_action defaultStep = ''SUMMARIZE''
   \<and> (P c = None \<and> (case extractObject c of None \<Rightarrow> True | Some sub \<Rightarrow> P sub = None)
        \<longrightarrow> generateNextStep_router P (Message (Some c)) = Some defaultStep)
   \<and> (P (cleanedContent c) = None
        \<longrightarrow> generateNextStep_service P html (Message (Some c)) = Some defaultStep)
   \<and> (W (trim c) = None
        \<longrightarrow> generateNextStep_social W (FetchOk c)
              = Inl (Error ''Failed to get a valid JSON response. Please try again.''))
   \<and> (P c = None \<longrightarrow> generateNextStep_legacy P (Message (Some c)) = Inr None)"
  by (auto simp: defaultStep_def generateNextStep_router_def generateNextStep_router_try_def
        generateNextStep_service_def generateNextStep_service_try_def
        generateNextStep_social_def generateNextStep_legacy_def
        split: option.splits sum.splits)

theorem malformed_reply_default_witness:
  "exampleParser ''Sure! I will click the button.'' = None
   \<and> extractObject ''Sure! I will click the button.'' = None
   \<and> exampleParser (cleanedContent ''Sure! I will click the button.'') = None
   \<and> exampleWebParser (trim ''Sure! I will click the button.'') = None
   \<and> generateNextStep_router exampleParser (Message (Some ''Sure! I will click the button.''))
       = Some defaultStep
   \<and> generateNextStep_service exampleParser (Inr ''<html></html>'')
         (Message (Some ''Sure! I will click the button.'')) = Some defaultStep
   \<and> generateNextStep_legacy exampleParser (Message (Some ''Sure! I will click the button.''))
       = Inr None"
proof -
  have h1: "exampleParser ''Sure! I will click the button.'' = None"
    by (simp add: exampleParser_def clickStep_def waitStep_def summarizeStep_def
          navigateStep_def blankStep_def)
  have h2: "extractObject ''Sure! I will click the button.'' = None"
    by (simp add: extractObject_def)
  have cc: "cleanedContent ''Sure! I will click the button.'' = ''Sure! I will click the button.''"
    by (simp add: cleanedContent_def stripFenceStart_def stripFenceEnd_def startsWith_def)
  have h3: "exampleParser (cleanedContent ''Sure! I will click the button.'') = None"
    unfolding cc by (rule h1)
  have h4: "exampleWebParser (trim ''Sure! I will click the button.'') = None"
    by (simp add: exampleWebParser_def trim_def dropLeading.simps matchLength_def
          whiteSpace_def startsWith_def)
  from malformed_reply_default [of exampleParser "''Sure! I will click the button.''"
      "Inr ''<html></html>''" exampleWebParser]
  show ?thesis using h1 h2 h3 h4 by simp
qed

text \<open>
  C3 as stated fails for the \<open>generateNextStep\<close> of the web task executor
  (part\_000:230): on a reply that is not JSON it throws.
\<close>

theorem malformed_reply_counterexample:
  "exampleWebParser (trim ''Sure! I will click the button.'') = None
   \<and> generateNextStep_social exampleWebParser (FetchOk ''Sure! I will click the button.'')
       = Inl (Error ''Failed to get a valid JSON response. Please try again.'')"
  by (simp add: generateNextStep_social_def exampleWebParser_def trim_def dropLeading.simps
        matchLength_def whiteSpace_def startsWith_def)

text \<open>
  C4 (as amended). \<open>runQualityAnalysis\<close> returns a structured result object and lets no
  exception through, on every path on which closing the browser (and, in the router,
  launching it and opening the page, which happen before the \<^verbatim>\<open>try\<close>) does not throw.
  When an exception is raised inside the \<^verbatim>\<open>try\<close> block (in the service this includes
  the launch of the browser and the opening of the page), the object holds the fixed
  text "An error occurred during the analysis" and the message of the exception as
  error string; the transcript accumulated so far is not part of it.
\<close>

theorem run_returns_structured_result:
  assumes "r_close env = None"
    and "v = Router \<longrightarrow> r_launch env = None \<and> r_newPage env = None"
  shows "(\<exists>out. snd (runQualityAnalysis v P url env) = Inr out)
         \<and> (r_launch env = None \<and> r_newPage env = None
              \<and> snd (case v of
                       Router \<Rightarrow> tryBlock_router P url env [Launch, NewPage]
                     | Service \<Rightarrow> tryBlock_service P url env [Launch, NewPage]) = Inl e
            \<longrightarrow> snd (runQualityAnalysis v P url env)
                  = Inr \<lparr>o_result = ''An error occurred during the analysis'',
                         o_screenshots = None, o_error = Some (message e)\<rparr>)
         \<and> (v = Service
              \<and> (r_launch env = Some e' \<or> r_launch env = None \<and> r_newPage env = Some e')
            \<longrightarrow> snd (runQualityAnalysis v P url env)
                  = Inr \<lparr>o_result = ''An error occurred during the analysis'',
                         o_screenshots = None, o_error = Some (message e')\<rparr>)"
proof (cases v)
  case Router
  then show ?thesis using assms
    by (auto simp: runQualityAnalysis_def finallyClose_def catchBlock_snd split: sum.splits)
next
  case Service
  then show ?thesis using assms
    by (auto simp: runQualityAnalysis_def finallyClose_def catchBlock_snd
          split: sum.splits option.splits)
qed

theorem run_returns_structured_result_witness:
  "r_close (quietRun (NavResponse 200) waitThenCrash) = None
   \<and> r_launch (quietRun (NavResponse 200) waitThenCrash) = None
   \<and> r_newPage (quietRun (NavResponse 200) waitThenCrash) = None
   \<and> snd (tryBlock_service exampleParser ''https://example.com/''
            (quietRun (NavResponse 200) waitThenCrash) [Launch, NewPage])
       = Inl (Error ''Execution context was destroyed'')
   \<and> snd (runQualityAnalysis Service exampleParser ''https://example.com/''
            (quietRun (NavResponse 200) waitThenCrash))
       = Inr \<lparr>o_result = ''An error occurred during the analysis'',
              o_screenshots = None, o_error = Some ''Execution context was destroyed''\<rparr>
   \<and> r_close noBrowserRun = None
   \<and> r_launch noBrowserRun = Some (Error ''Failed to launch the browser process'')
   \<and> snd (runQualityAnalysis Service exampleParser ''https://example.com/'' noBrowserRun)
       = Inr \<lparr>o_result = ''An error occurred during the analysis'',
              o_screenshots = None, o_error = Some ''Failed to launch the browser process''\<rparr>"
proof -
  have g1: "r_close noBrowserRun = None"
    and g2: "r_launch noBrowserRun = Some (Error ''Failed to launch the browser process'')"
    by (simp_all add: noBrowserRun_def quietRun_def)
  have g3: "Service = Router \<longrightarrow> r_launch noBrowserRun = None \<and> r_newPage noBrowserRun = None"
    by simp
  have g: "snd (runQualityAnalysis Service exampleParser ''https://example.com/'' noBrowserRun)
       = Inr \<lparr>o_result = ''An error occurred during the analysis'',
              o_screenshots = None, o_error = Some ''Failed to launch the browser process''\<rparr>"
    using run_returns_structured_result [OF g1 g3, where P = exampleParser
        and url = "''https://example.com/''"
        and e' = "Error ''Failed to launch the browser process''"] g2
    by simp
  have h1: "r_close (quietRun (NavResponse 200) waitThenCrash) = None"
    and h2: "r_launch (quietRun (NavResponse 200) waitThenCrash) = None"
    and h3: "r_newPage (quietRun (NavResponse 200) waitThenCrash) = None"
    by (simp_all add: quietRun_def)
  have h4: "snd (tryBlock_service exampleParser ''https://example.com/''
            (quietRun (NavResponse 200) waitThenCrash) [Launch, NewPage])
       = Inl (Error ''Execution context was destroyed'')"
    using waitThenCrash_loop
    by (simp add: tryBlock_service_def loopAndFinish_def quietRun_def ok_def)
  have h5: "Service = Router \<longrightarrow> r_launch (quietRun (NavResponse 200) waitThenCrash) = None
              \<and> r_newPage (quietRun (NavResponse 200) waitThenCrash) = None"
    by simp
  from run_returns_structured_result [OF h1 h5, where P = exampleParser
      and url = "''https://example.com/''" and e = "Error ''Execution context was destroyed''"]
  show ?thesis using h1 h2 h3 h4 g g1 g2 by simp
qed

text \<open>
  C4 as stated fails in the service (qualityAnalysis.ts:498): after a first step has
  been executed and logged, an exception in the second iteration makes the run return
  the fixed text; the transcript of the first step is lost.
\<close>

theorem run_returns_structured_result_counterexample:
  "result (exit_state (snd (loop Service exampleParser waitThenCrash
      (initialState ''https://example.com/'' [Launch, NewPage, Goto ''https://example.com/'']))))
     = ''Step 1: '' @ p_json waitStep @ nl @ ''Step completed successfully'' @ nl
   \<and> runQualityAnalysis Service exampleParser ''https://example.com/''
        (quietRun (NavResponse 200) waitThenCrash)
     = ([Launch, NewPage, Goto ''https://example.com/'', Wait 500, Close],
        Inr \<lparr>o_result = ''An error occurred during the analysis'',
              o_screenshots = None, o_error = Some ''Execution context was destroyed''\<rparr>)"
  using waitThenCrash_loop
  by (simp add: runQualityAnalysis_def tryBlock_service_def loopAndFinish_def catchBlock_def
        finallyClose_def quietRun_def ok_def exit_state_def initialState_def)

text \<open>
  C5 (as amended). \<open>runQualityAnalysis\<close> closes the browser session exactly once, as
  the last browser call of the run, on every path on which the session was opened:
  whenever the launch succeeded (in the router: and the page was opened). The web task
  executor \<open>executeWebTask\<close> never closes its session.
\<close>

theorem session_closed_once:
  assumes "r_launch env = None" and "v = Router \<longrightarrow> r_newPage env = None"
  shows "count_list (fst (runQualityAnalysis v P url env)) Close = 1
         \<and> last (fst (runQualityAnalysis v P url env)) = Close
         \<and> (executeWebTask fuel W wenv = Some r \<longrightarrow> count_list (fst r) Close = 0)"
proof -
  obtain tr where tr: "fst (runQualityAnalysis v P url env) = tr @ [Close]" "Close \<notin> set tr"
    using run_trace [OF assms] by blast
  have "count_list tr Close = 0" using tr(2) by (simp add: count_list_0_iff)
  then have a: "count_list (fst (runQualityAnalysis v P url env)) Close = 1"
    using tr(1) by simp
  have b: "last (fst (runQualityAnalysis v P url env)) = Close" using tr(1) by simp
  have c: "executeWebTask fuel W wenv = Some r \<longrightarrow> count_list (fst r) Close = 0"
    using executeWebTask_noClose by (auto simp: count_list_0_iff)
  show ?thesis using a b c by simp
qed

theorem session_closed_once_witness:
  "r_launch (quietRun (NavResponse 200) waitThenCrash) = None
   \<and> r_newPage (quietRun (NavResponse 200) waitThenCrash) = None
   \<and> count_list (fst (runQualityAnalysis Service exampleParser ''https://example.com/''
                         (quietRun (NavResponse 200) waitThenCrash))) Close = 1
   \<and> last (fst (runQualityAnalysis Service exampleParser ''https://example.com/''
                   (quietRun (NavResponse 200) waitThenCrash))) = Close"
proof -
  have h1: "r_launch (quietRun (NavResponse 200) waitThenCrash) = None"
    by (simp add: quietRun_def)
  have h2: "Service = Router \<longrightarrow> r_newPage (quietRun (NavResponse 200) waitThenCrash) = None"
    by simp
  from session_closed_once [OF h1 h2]
  show ?thesis using h1 by (simp add: quietRun_def)
qed

text \<open>
  C5 as stated fails for \<open>executeWebTask\<close> (part\_000:197): its \<^verbatim>\<open>finally\<close> block is
  empty, and a run that completes returns with the session still open.
\<close>

theorem session_closed_once_counterexample:
  \<open>executeWebTask 1 exampleWebParser webRunDone
     = Some ([Launch, NewPage, Goto ''https://www.google.com/search?q=cats''],
             Inr \<lparr>wo_result =
                     ''Initial step:'' @ nl
                     @ ''{'' @ nl @ ''  "thought": "search for it",'' @ nl
                     @ ''  "param": "https://www.google.com/search?q=cats"'' @ nl @ ''}''
                     @ nl @ nl
                     @ ''Navigated to: https://www.google.com/search?q=cats'' @ nl
                     @ ''Next step:'' @ nl
                     @ ''{'' @ nl @ ''  "thought": "Goal achieved",'' @ nl
                     @ ''  "action": "NONE"'' @ nl @ ''}''
                     @ nl @ nl
                     @ ''Task completed successfully.'' @ nl
                     @ ''Final URL: https://www.google.com/search?q=cats'' @ nl,
                   wo_livePageUrl = Some ''https://www.google.com/search?q=cats''\<rparr>)
   \<and> count_list [Launch, NewPage, Goto ''https://www.google.com/search?q=cats''] Close = 0\<close>
  by (simp add: executeWebTask_def webTry_def generateInstructions.simps webIteration_def
        generateNextStep_social_def exampleWebParser_def webRunDone_def trim_def
        dropLeading.simps matchLength_def whiteSpace_def textOf_def
        toLowerChar_def startsWith_def orElse_def wlog_def wcall_def
        nl_def Let_def)




text \<open>
  C7 (as amended). In the router and in the service, once NAVIGATE is among the
  completed actions, a NAVIGATE proposal, with whatever URL, performs no navigation
  and leaves the execution state unchanged: the NAVIGATE case of the \<^verbatim>\<open>switch\<close> returns
  the state it was given (with \<open>currentState\<close>, which holds the current URL, and the
  completed actions) and raises nothing, and the iteration that is given the proposal
  calls none of the helpers that act on the browser and leaves the completed actions
  and the screenshots as they are. (The iteration still reads the page, and after the
  step, as after every step, rebuilds \<open>currentState\<close> from \<^verbatim>\<open>page.url()\<close>.) The loop of
  root.ts has no such guard: there every NAVIGATE proposal with a URL navigates.
\<close>

theorem navigate_once:
  assumes "generateNextStep v P env = Some p" and "p_action p = ''NAVIGATE''"
    and "''NAVIGATE'' \<in> set (completedActions s)"
  shows "switchAction v env p s = (s, None)
         \<and> ops (state_of (iteration v P env s)) = ops s
         \<and> completedActions (state_of (iteration v P env s)) = completedActions s
         \<and> screenshots (state_of (iteration v P env s)) = screenshots s
         \<and> (truthy (p_url p)
              \<longrightarrow> ops (fst (switchAction_plain env p s)) = ops s @ [Goto (orElse (p_url p) [])])"
proof -
  have sw: "switchAction v env p s = (s, None)"
    using assms(2,3) by (simp add: switchAction_def)
  have plain: "truthy (p_url p)
      \<longrightarrow> ops (fst (switchAction_plain env p s)) = ops s @ [Goto (orElse (p_url p) [])]"
    using assms(2)
    by (auto simp: switchAction_plain_def attempt_def call_def split: sum.splits)
  have guarded: "ops (state_of (iteration v P env s)) = ops s
         \<and> completedActions (state_of (iteration v P env s)) = completedActions s
         \<and> screenshots (state_of (iteration v P env s)) = screenshots s"
  proof (cases rule: iteration_cases [where s = s and env = env and v = v and P = P])
    case critical
    then show ?thesis by (simp add: iteration_def Let_def state_of_def logLine_def)
  next
    case (read_throws e)
    then show ?thesis by (simp add: state_of_def during_frame)
  next
    case (no_step c)
    then show ?thesis using assms by simp
  next
    case (skipped c p')
    then show ?thesis using iteration_skipped [OF skipped]
      by (simp add: state_of_def afterReads_frame)
  next
    case (executed c p')
    then have pp: "p' = p" using assms(1) by simp
    have nav: "''NAVIGATE'' \<in> set (completedActions (beforeTry p (afterReads v env s)))"
      using assms(3) by (simp add: beforeTry_frame afterReads_frame)
    have "iteration v P env s
            = afterStep v env p (logLine (''Step completed successfully'' @ nl)
                                   (beforeTry p (afterReads v env s)))"
      using iteration_executed [OF executed] tryStep_navigate_done [OF assms(2) nav, of v env] pp
      by simp
    then show ?thesis
      by (simp add: afterStep_frame logLine_def beforeTry_frame afterReads_frame)
  qed
  show ?thesis using sw guarded plain by simp
qed

theorem navigate_once_witness:
  "generateNextStep Router exampleParser (quietEnv (p_json navigateStep)) = Some navigateStep
   \<and> p_action navigateStep = ''NAVIGATE''
   \<and> ''NAVIGATE'' \<in> set (completedActions navigatedState)
   \<and> switchAction Router (quietEnv (p_json navigateStep)) navigateStep navigatedState
       = (navigatedState, None)
   \<and> ops (state_of (iteration Router exampleParser (quietEnv (p_json navigateStep)) navigatedState))
       = [Launch, NewPage, Goto ''https://example.com/'', Goto ''https://example.com/next'']
   \<and> completedActions
         (state_of (iteration Router exampleParser (quietEnv (p_json navigateStep)) navigatedState))
       = [''NAVIGATE'']
   \<and> truthy (p_url navigateStep)
   \<and> ops (fst (switchAction_plain (quietEnv (p_json navigateStep)) navigateStep navigatedState))
       = [Launch, NewPage, Goto ''https://example.com/'', Goto ''https://example.com/next'',
          Goto ''https://example.com/next'']"
proof -
  have h1: "generateNextStep Router exampleParser (quietEnv (p_json navigateStep)) = Some navigateStep"
    by (simp add: generateNextStep_def generateNextStep_router_def
          generateNextStep_router_try_def quietEnv_def exampleParser_def navigateStep_def
          clickStep_def waitStep_def summarizeStep_def)
  have h2: "p_action navigateStep = ''NAVIGATE''" by (simp add: navigateStep_def)
  have h3: "''NAVIGATE'' \<in> set (completedActions navigatedState)"
    by (simp add: navigatedState_def initialState_def)
  have h4: "truthy (p_url navigateStep)" by (simp add: truthy_def navigateStep_def)
  have u: "orElse (p_url navigateStep) [] = ''https://example.com/next''"
    by (simp add: orElse_def truthy_def navigateStep_def)
  from navigate_once [OF h1 h2 h3]
  show ?thesis using h1 h2 h3 h4 unfolding u by (simp add: navigatedState_def initialState_def)
qed

text \<open>
  C7 as stated fails in the loop of root.ts (root.ts:301): with NAVIGATE already among
  the completed actions, a further NAVIGATE proposal navigates again.
\<close>

theorem navigate_once_counterexample:
  "''NAVIGATE'' \<in> set (completedActions navigatedState)
   \<and> p_action blankStep = ''NAVIGATE''
   \<and> ops (state_of (iteration_plain exampleParser (quietEnv (p_json blankStep)) navigatedState))
       = [Launch, NewPage, Goto ''https://example.com/'', Goto ''https://example.com/next'',
          Goto ''about:blank'']"
  by (simp add: iteration_plain_def switchAction_plain_def attempt_def call_def pushCompleted_def
        generateNextStep_service_def generateNextStep_service_try_def cleanedContent_def
        stripFenceStart_def stripFenceEnd_def startsWith_def
        quietEnv_def exampleParser_def blankStep_def navigateStep_def
        clickStep_def waitStep_def summarizeStep_def navigatedState_def initialState_def
        truthy_def orElse_def logLine_def state_of_def Let_def)




text \<open>
  C9 (as amended). In the router and in the service, a SUMMARIZE step that is executed
  (not skipped by the repetition guard) and whose \<open>summarizePage\<close> call returns sets
  the task-completed flag, and the loop runs no further iteration. In the oldest loop
  (part\_001:150) the SUMMARIZE case leaves the flag as it is.
\<close>

theorem summarize_completes:
  assumes "\<not> criticalErrorOccurred s" and "e_pageContent env = Inr c"
    and "generateNextStep v P env = Some p" and "p_action p = ''SUMMARIZE''"
    and "\<not> repeated (actionAttempts s) (actionKey p)" and "e_exec env = Inr summary"
  shows "taskCompleted (state_of (iteration v P env s))
         \<and> ops (state_of (iteration v P env s)) = ops s @ [SummarizePage]
         \<and> (iteration v P env s = Continue s' \<longrightarrow> loop v P E s' = ([], Done s'))
         \<and> taskCompleted (fst (switchAction_legacy env p s)) = taskCompleted s"
proof -
  let ?t = "logLine (''Step completed successfully'' @ nl)
              ((pushCompleted ''SUMMARIZE''
                  (logLine (''Summary: '' @ summary @ nl)
                     (during v env AtAct (call SummarizePage (beforeTry p (afterReads v env s))))))
                 \<lparr>taskCompleted := True\<rparr>)"
  have it: "iteration v P env s = afterStep v env p ?t"
    using iteration_executed [OF assms(1,2,3,5)] tryStep_summarize [OF assms(4,6), of v]
    by simp
  have tc: "taskCompleted (state_of (iteration v P env s))"
    unfolding it by (rule afterStep_taskCompleted) (simp add: logLine_def)
  have op: "ops (state_of (iteration v P env s)) = ops s @ [SummarizePage]"
    unfolding it
    by (simp add: afterStep_frame logLine_def pushCompleted_def call_def during_frame
          beforeTry_frame afterReads_frame)
  have lp: "iteration v P env s = Continue s' \<longrightarrow> loop v P E s' = ([], Done s')"
  proof
    assume c: "iteration v P env s = Continue s'"
    then have "taskCompleted s'" using tc by (simp add: state_of_def)
    then show "loop v P E s' = ([], Done s')" by (intro loop_stop) simp
  qed
  have lg: "taskCompleted (fst (switchAction_legacy env p s)) = taskCompleted s"
    using assms(4,6)
    by (simp add: switchAction_legacy_def attempt_def addCompleted_def pushCompleted_def
          logLine_def call_def during_frame Let_def)
  show ?thesis using tc op lp lg by simp
qed

theorem summarize_completes_witness:
  "\<not> criticalErrorOccurred (initialState ''https://example.com/'' [Launch, NewPage])
   \<and> e_pageContent summaryEnv = Inr ''page''
   \<and> generateNextStep Router exampleParser summaryEnv = Some summarizeStep
   \<and> p_action summarizeStep = ''SUMMARIZE''
   \<and> \<not> repeated (actionAttempts (initialState ''https://example.com/'' [Launch, NewPage]))
          (actionKey summarizeStep)
   \<and> e_exec summaryEnv = Inr ''A landing page.''
   \<and> taskCompleted (state_of (iteration Router exampleParser summaryEnv
         (initialState ''https://example.com/'' [Launch, NewPage])))
   \<and> ops (state_of (iteration Router exampleParser summaryEnv
         (initialState ''https://example.com/'' [Launch, NewPage])))
       = [Launch, NewPage, SummarizePage]"
proof -
  have h1: "\<not> criticalErrorOccurred (initialState ''https://example.com/'' [Launch, NewPage])"
    by (simp add: initialState_def)
  have h2: "e_pageContent summaryEnv = Inr ''page''"
    by (simp add: summaryEnv_def quietEnv_def)
  have h3: "generateNextStep Router exampleParser summaryEnv = Some summarizeStep"
    by (simp add: generateNextStep_def generateNextStep_router_def
          generateNextStep_router_try_def summaryEnv_def quietEnv_def exampleParser_def
          clickStep_def waitStep_def summarizeStep_def)
  have h4: "p_action summarizeStep = ''SUMMARIZE''" by (simp add: summarizeStep_def)
  have h5: "\<not> repeated (actionAttempts (initialState ''https://example.com/'' [Launch, NewPage]))
          (actionKey summarizeStep)"
    by (simp add: repeated_def initialState_def)
  have h6: "e_exec summaryEnv = Inr ''A landing page.''"
    by (simp add: summaryEnv_def)
  from summarize_completes [OF h1 h2 h3 h4 h5 h6]
  show ?thesis using h1 h2 h3 h4 h5 h6 by (simp add: initialState_def)
qed

text \<open>
  C9 as stated fails in the oldest loop (part\_001:150): the page is summarized, the
  flag stays unset, and the loop goes on.
\<close>

theorem summarize_completes_counterexample:
  "p_action summarizeStep = ''SUMMARIZE''
   \<and> (case iteration_legacy exampleParser summaryEnv
              (initialState ''https://example.com/'' [Launch, NewPage]) of
         Continue s' \<Rightarrow> \<not> taskCompleted s' \<and> ops s' = [Launch, NewPage, SummarizePage]
                          \<and> completedActions s' = [''SUMMARIZE''] \<and> stepCount s' = 1
       | Break s' \<Rightarrow> False
       | Return s' out \<Rightarrow> False
       | Throw s' e \<Rightarrow> False)"
  by (simp add: iteration_legacy_def switchAction_legacy_def afterStep_legacy_def
        generateNextStep_legacy_def attempt_def call_def addCompleted_def pushCompleted_def
        summaryEnv_def quietEnv_def exampleParser_def summarizeStep_def
        clickStep_def waitStep_def initialState_def videoCheck_def during_def
        logLine_def handleEvents_def Let_def)

text \<open>
  C10. When the repetition guard skips a proposal (its action key has a recorded count
  of 3 or more), the iteration goes on to the next one with the step counter increased
  by 1, and makes no browser call; the completed actions, the screenshots, the attempt
  counts (of every key), \<open>currentState\<close> (which holds the current URL) and the
  completion and video flags are what they were. Only the transcript grows, by the step
  line and the line "Skipping repeated action". (The page events that fire meanwhile
  are recorded by their handlers as in every iteration.)
\<close>

theorem skip_consumes_step_only:
  assumes "\<not> criticalErrorOccurred s" and "e_pageContent env = Inr c"
    and "generateNextStep v P env = Some p"
    and "actionAttempts s (actionKey p) = Some n" and "3 \<le> n"
  shows "\<exists>s'. iteration v P env s = Continue s' \<and> stepCount s' = stepCount s + 1
           \<and> ops s' = ops s \<and> completedActions s' = completedActions s
           \<and> screenshots s' = screenshots s \<and> actionAttempts s' = actionAttempts s
           \<and> currentState s' = currentState s \<and> videoClicked s' = videoClicked s
           \<and> taskCompleted s' = taskCompleted s"
proof -
  have "repeated (actionAttempts s) (actionKey p)"
    using assms(4,5) by (simp add: repeated_def)
  from iteration_skipped [OF assms(1-3) this]
  show ?thesis by (simp add: afterReads_frame)
qed

theorem skip_consumes_step_only_witness:
  "\<not> criticalErrorOccurred thriceClicked
   \<and> e_pageContent (quietEnv (p_json clickStep)) = Inr ''page''
   \<and> generateNextStep Router exampleParser (quietEnv (p_json clickStep)) = Some clickStep
   \<and> actionAttempts thriceClicked (actionKey clickStep) = Some 3
   \<and> (\<exists>s'. iteration Router exampleParser (quietEnv (p_json clickStep)) thriceClicked = Continue s'
         \<and> stepCount s' = 4 \<and> ops s' = [Launch, NewPage, Goto ''https://example.com/'']
         \<and> completedActions s' = [] \<and> screenshots s' = []
         \<and> actionAttempts s' = [''CLICK_#go'' \<mapsto> 3])"
proof -
  have h1: "\<not> criticalErrorOccurred thriceClicked"
    by (simp add: thriceClicked_def initialState_def)
  have h2: "e_pageContent (quietEnv (p_json clickStep)) = Inr ''page''"
    by (simp add: quietEnv_def)
  have h3: "generateNextStep Router exampleParser (quietEnv (p_json clickStep)) = Some clickStep"
    by (simp add: generateNextStep_def generateNextStep_router_def
          generateNextStep_router_try_def quietEnv_def exampleParser_def clickStep_def)
  have h4: "actionAttempts thriceClicked (actionKey clickStep) = Some 3"
    by (simp add: thriceClicked_def actionKey_def clickStep_def orElse_def)
  have h5: "(3::nat) \<le> 3" by simp
  from skip_consumes_step_only [OF h1 h2 h3 h4 h5]
  obtain s' where s': "iteration Router exampleParser (quietEnv (p_json clickStep)) thriceClicked = Continue s'"
    "stepCount s' = stepCount thriceClicked + 1" "ops s' = ops thriceClicked"
    "completedActions s' = completedActions thriceClicked"
    "screenshots s' = screenshots thriceClicked" "actionAttempts s' = actionAttempts thriceClicked"
    by blast
  then show ?thesis using h1 h2 h3 h4
    by (simp add: thriceClicked_def initialState_def)
qed

end
